(* ===== verification/Prelude.thy ===== *)
theory Prelude
  imports Main "HOL-Library.Word" "HOL-Library.Sublist" "HOL-Library.AList"
    "HOL-Library.List_Lexorder" "HOL-Library.Char_ord"
begin

text \<open>
  Shared vocabulary of the development: the types that name the model's values (bytes,
  path components, absolute paths), the theorem collections the component theories feed,
  and the operations of Go's \<open>strings\<close> package that the sources call
  (\<open>strings.Split\<close>, \<open>strings.Join\<close>, \<open>strings.TrimPrefix\<close>,
  \<open>strings.ReplaceAll\<close>, \<open>strings.HasSuffix\<close>), with the list lemmas the path and
  file-system proofs share. Go strings are byte strings; a HOL \<open>string\<close> is a list of
  8-bit \<open>char\<close>s, so lengths and indices agree.
\<close>

named_theorems go_simps "evaluation rules of the Go library model"
named_theorems fs_simps "lookup rules of the file-system model"

type_synonym byte = "8 word"
type_synonym bytes = "byte list"
type_synonym fname = string
type_synonym apath = "fname list"

abbreviation slash :: char where
  "slash \<equiv> CHR ''/''"

section \<open>strings.Split with a one-byte separator\<close>

fun split_on :: "char \<Rightarrow> string \<Rightarrow> string list" where
  "split_on c [] = [[]]"
| "split_on c (x # xs) =
     (if x = c then [] # split_on c xs
      else (let r = split_on c xs in (x # hd r) # tl r))"

section \<open>strings.Join\<close>

fun join_with :: "char \<Rightarrow> string list \<Rightarrow> string" where
  "join_with c [] = []"
| "join_with c [x] = x"
| "join_with c (x # y # xs) = x @ c # join_with c (y # xs)"

section \<open>strings.TrimPrefix, strings.HasSuffix, strings.ReplaceAll\<close>

definition trim_prefix :: "string \<Rightarrow> string \<Rightarrow> string" where
  "trim_prefix s pre = (if take (length pre) s = pre then drop (length pre) s else s)"

definition has_suffix :: "string \<Rightarrow> string \<Rightarrow> bool" where
  "has_suffix s suf \<longleftrightarrow> length suf \<le> length s \<and> drop (length s - length suf) s = suf"

definition replace_all_char :: "string \<Rightarrow> char \<Rightarrow> char \<Rightarrow> string" where
  "replace_all_char s old new = map (\<lambda>x. if x = old then new else x) s"

section \<open>Lemmas on splitting and joining\<close>

lemma split_on_not_Nil [simp]: "split_on c s \<noteq> []"
  by (induction s) (auto simp: Let_def)

lemma split_on_Cons_sep [go_simps]: "split_on c (c # xs) = [] # split_on c xs"
  by simp

lemma split_on_no_sep: "w \<in> set (split_on c s) \<Longrightarrow> c \<notin> set w"
proof (induction s arbitrary: w)
  case Nil
  then show ?case by simp
next
  case (Cons x xs)
  obtain r rs where r: "split_on c xs = r # rs"
    by (cases "split_on c xs") auto
  with Cons show ?case by (auto simp: Let_def split: if_splits)
qed

lemma split_on_append_sep:
  "split_on c (xs @ c # ys) = split_on c xs @ split_on c ys"
proof (induction xs)
  case Nil
  then show ?case by simp
next
  case (Cons x xs)
  obtain r rs where r: "split_on c xs = r # rs"
    by (cases "split_on c xs") auto
  with Cons show ?case by (simp add: Let_def)
qed

lemma split_on_no_sep_eq: "c \<notin> set s \<Longrightarrow> split_on c s = [s]"
  by (induction s) auto

lemma join_with_Cons: "xs \<noteq> [] \<Longrightarrow> join_with c (x # xs) = x @ c # join_with c xs"
  by (cases xs) auto

lemma join_with_snoc: "ys \<noteq> [] \<Longrightarrow> join_with c (ys @ [x]) = join_with c ys @ c # x"
  by (induction c ys rule: join_with.induct) auto

text \<open>Join undoes Split, and Split undoes Join when no element holds the separator.\<close>

lemma join_split_on: "join_with c (split_on c s) = s"
proof (induction s)
  case Nil
  then show ?case by simp
next
  case (Cons x xs)
  obtain r rs where r: "split_on c xs = r # rs"
    by (cases "split_on c xs") auto
  show ?case
  proof (cases "x = c")
    case True
    with Cons.IH show ?thesis by (simp add: join_with_Cons)
  next
    case False
    with Cons.IH r show ?thesis by (cases rs) auto
  qed
qed

lemma split_on_join:
  "xs \<noteq> [] \<Longrightarrow> \<forall>w \<in> set xs. c \<notin> set w \<Longrightarrow> split_on c (join_with c xs) = xs"
proof (induction xs rule: join_with.induct)
  case (3 c x y xs)
  then show ?case by (simp add: split_on_append_sep split_on_no_sep_eq)
qed (auto simp: split_on_no_sep_eq)

lemma join_with_Nil_iff: "join_with c xs = [] \<longleftrightarrow> (\<forall>w \<in> set xs. w = []) \<and> length xs \<le> 1"
  by (induction xs rule: join_with.induct) auto

lemma trim_prefix_no_prefix: "take (length pre) s \<noteq> pre \<Longrightarrow> trim_prefix s pre = s"
  by (simp add: trim_prefix_def)

lemma trim_prefix_slash_Cons [go_simps]: "trim_prefix (slash # s) ''/'' = s"
  by (simp add: trim_prefix_def)

lemma trim_prefix_slash_other [go_simps]: "x \<noteq> slash \<Longrightarrow> trim_prefix (x # s) ''/'' = x # s"
  by (simp add: trim_prefix_def)

lemma replace_all_char_notin: "old \<noteq> new \<Longrightarrow> old \<notin> set (replace_all_char s old new)"
  by (auto simp: replace_all_char_def)

section \<open>Lemmas on lists and maps\<close>

lemma map_of_update_other [fs_simps]: "q \<noteq> p \<Longrightarrow> map_of (AList.update p v al) q = map_of al q"
  by (simp add: update_conv')

lemma map_of_update_same [fs_simps]: "map_of (AList.update p v al) p = Some v"
  by (simp add: update_conv')

lemma butlast_neq_self: "xs \<noteq> [] \<Longrightarrow> butlast xs \<noteq> xs"
  by (induction xs) auto

end
