(* ===== verification/GoPath.thy ===== *)
theory GoPath
  imports Prelude
begin

text \<open>
  Go's \<open>path\<close> package as the sources use it: \<open>path.Clean\<close> and \<open>path.Join\<close>
  (library code, modelled from its documentation and its implementation in
  \<open>src/path/path.go\<close> of the Go distribution). \<open>Clean\<close> works on the slash-separated
  elements of its argument: empty and \<open>.\<close> elements vanish, a \<open>..\<close> removes the
  element before it when that element is not itself \<open>..\<close>, a \<open>..\<close> that begins a
  rooted path vanishes, and the empty result is \<open>.\<close>. The element loop is
  \<open>clean_step\<close> over a stack (top first), the same backtracking as the Go
  implementation's \<open>lazybuf\<close> with its \<open>dotdot\<close> mark. \<open>Join\<close> glues its
  non-empty elements with slashes and cleans the result.

  The lemmas give the normal form of a cleaned path (\<open>normal_segs\<close>: no empty or
  \<open>.\<close> element, \<open>..\<close> only as a prefix, none at all when rooted), idempotence of
  \<open>Clean\<close>, and the shape of \<open>Join(x, Clean(f))\<close>, the expression the upload
  handlers build their paths with.
\<close>

section \<open>path.Clean\<close>

definition is_rooted :: "string \<Rightarrow> bool" where
  "is_rooted p \<longleftrightarrow> p \<noteq> [] \<and> hd p = slash"

fun clean_step :: "bool \<Rightarrow> string list \<Rightarrow> string \<Rightarrow> string list" where
  "clean_step rooted st s =
     (if s = [] \<or> s = ''.'' then st
      else if s = ''..'' then
        (case st of
           [] \<Rightarrow> (if rooted then [] else [''..''])
         | x # st' \<Rightarrow> (if x = ''..'' then ''..'' # st else st'))
      else s # st)"

definition clean_segs :: "bool \<Rightarrow> string list \<Rightarrow> string list" where
  "clean_segs rooted segs = rev (foldl (clean_step rooted) [] segs)"

definition clean :: "string \<Rightarrow> string" where
  "clean p =
     (if p = [] then ''.''
      else
        (let rooted = is_rooted p;
             ns = clean_segs rooted (split_on slash p);
             body = join_with slash ns
         in if rooted then slash # body else if ns = [] then ''.'' else body))"

section \<open>path.Join\<close>

fun join_buf :: "string \<Rightarrow> string list \<Rightarrow> string" where
  "join_buf buf [] = buf"
| "join_buf buf (e # es) =
     join_buf (if buf \<noteq> [] \<or> e \<noteq> [] then (if buf \<noteq> [] then buf @ ''/'' else buf) @ e else buf) es"

definition path_join :: "string list \<Rightarrow> string" where
  "path_join elems = (if sum_list (map length elems) = 0 then [] else clean (join_buf [] elems))"

section \<open>Normal form of cleaned element lists\<close>

definition plain_name :: "string \<Rightarrow> bool" where
  "plain_name s \<longleftrightarrow> s \<noteq> [] \<and> s \<noteq> ''.'' \<and> s \<noteq> ''..'' \<and> slash \<notin> set s"

definition normal_segs :: "string list \<Rightarrow> bool" where
  "normal_segs ns \<longleftrightarrow> list_all plain_name (dropWhile (\<lambda>s. s = ''..'') ns)"

declare clean_step.simps [simp del]

lemma clean_step_skip [go_simps]: "s = [] \<or> s = ''.'' \<Longrightarrow> clean_step r st s = st"
  by (auto simp: clean_step.simps)

lemma clean_step_dotdot [go_simps]:
  "clean_step r st ''..'' =
     (case st of [] \<Rightarrow> (if r then [] else [''..'']) | x # st' \<Rightarrow> (if x = ''..'' then ''..'' # st else st'))"
  by (simp add: clean_step.simps)

lemma clean_step_plain [simp]: "plain_name s \<Longrightarrow> clean_step r st s = s # st"
  by (auto simp: plain_name_def clean_step.simps)

lemma foldl_clean_step_plain:
  "list_all plain_name ns \<Longrightarrow> foldl (clean_step r) st ns = rev ns @ st"
  by (induction ns arbitrary: st) auto

lemma foldl_clean_step_dotdots:
  "foldl (clean_step False) (replicate j ''..'') (replicate k ''..'') = replicate (j + k) ''..''"
proof (induction k arbitrary: j)
  case (Suc k)
  have "clean_step False (replicate j ''..'') ''..'' = replicate (Suc j) ''..''"
    by (cases j) (auto simp: clean_step_dotdot)
  with Suc.IH [of "Suc j"] show ?case by simp
qed simp

lemma dropWhile_dotdots:
  "list_all plain_name rest \<Longrightarrow> dropWhile (\<lambda>s. s = ''..'') (replicate k ''..'' @ rest) = rest"
proof (induction k)
  case 0
  then show ?case by (cases rest) (simp_all add: plain_name_def)
qed simp

lemma takeWhile_eq_replicate:
  "takeWhile (\<lambda>s. s = x) xs = replicate (length (takeWhile (\<lambda>s. s = x) xs)) x"
  by (induction xs) simp_all

lemma normal_segs_split:
  "normal_segs ns \<longleftrightarrow> (\<exists>k rest. ns = replicate k ''..'' @ rest \<and> list_all plain_name rest)"
proof
  assume n: "normal_segs ns"
  let ?k = "length (takeWhile (\<lambda>s. s = ''..'') ns)"
  have "ns = replicate ?k ''..'' @ dropWhile (\<lambda>s. s = ''..'') ns"
    using takeWhile_eq_replicate [of "''..''" ns] takeWhile_dropWhile_id [of "\<lambda>s. s = ''..''" ns]
    by simp
  with n show "\<exists>k rest. ns = replicate k ''..'' @ rest \<and> list_all plain_name rest"
    unfolding normal_segs_def by blast
next
  assume "\<exists>k rest. ns = replicate k ''..'' @ rest \<and> list_all plain_name rest"
  then show "normal_segs ns" by (auto simp: normal_segs_def dropWhile_dotdots)
qed

lemma normal_segs_dotdots_plain:
  "list_all plain_name rest \<Longrightarrow> normal_segs (replicate k ''..'' @ rest)"
  by (auto simp: normal_segs_split)

text \<open>A normal element list is a fixed point of the element loop.\<close>

lemma foldl_clean_step_normal:
  "normal_segs ns \<Longrightarrow> foldl (clean_step False) [] ns = rev ns"
proof -
  assume "normal_segs ns"
  then obtain k rest where ns: "ns = replicate k ''..'' @ rest" and r: "list_all plain_name rest"
    by (auto simp: normal_segs_split)
  have "foldl (clean_step False) [] (replicate k ''..'') = replicate k ''..''"
    using foldl_clean_step_dotdots [of 0 k] by simp
  with r ns show ?thesis by (simp add: foldl_clean_step_plain)
qed

text \<open>
  One step of the element loop keeps the stack a reversed normal list (of plain names
  only, when the path is rooted).
\<close>

lemma clean_step_dotdot_dotdots:
  "clean_step r (replicate k ''..'') ''..'' = replicate (if r \<and> k = 0 then 0 else Suc k) ''..''"
  by (cases k) (simp_all add: clean_step_dotdot)

lemma clean_step_dotdot_pop:
  "plain_name y \<Longrightarrow> clean_step r (y # st) ''..'' = st"
  by (auto simp: clean_step_dotdot plain_name_def)

lemma clean_step_normal:
  assumes n: "normal_segs (rev st)" and rp: "r \<longrightarrow> list_all plain_name st"
    and ns: "slash \<notin> set s"
  shows "normal_segs (rev (clean_step r st s)) \<and> (r \<longrightarrow> list_all plain_name (clean_step r st s))"
proof -
  from n obtain k rest where "rev st = replicate k ''..'' @ rest" and pr: "list_all plain_name rest"
    by (auto simp: normal_segs_split)
  then have st: "st = rev rest @ replicate k ''..''"
    by (metis rev_replicate rev_rev_ident rev_append)
  have rk: "r \<longrightarrow> k = 0"
    using rp st by (cases k) (auto simp: plain_name_def)
  consider "s = [] \<or> s = ''.''" | "s = ''..''" | "plain_name s"
    using ns by (auto simp: plain_name_def)
  then show ?thesis
  proof cases
    case 1
    with n rp show ?thesis by (simp add: clean_step_skip)
  next
    case 2
    show ?thesis
    proof (cases rest rule: rev_cases)
      case Nil
      with st rk 2 show ?thesis
        using clean_step_dotdot_dotdots [of True 0]
        by (simp add: clean_step_dotdot_dotdots normal_segs_dotdots_plain [of "[]", simplified])
    next
      case (snoc ys y)
      with pr have "plain_name y" and "list_all plain_name ys" by simp_all
      with st snoc 2 rk show ?thesis
        by (simp add: clean_step_dotdot_pop normal_segs_dotdots_plain)
    qed
  next
    case 3
    with st pr rk have "rev (clean_step r st s) = replicate k ''..'' @ (rest @ [s])"
      by simp
    with 3 pr rp show ?thesis
      by (simp add: normal_segs_dotdots_plain)
  qed
qed

section \<open>The output of Clean\<close>

definition clean_elems :: "string \<Rightarrow> string list" where
  "clean_elems p = clean_segs (is_rooted p) (split_on slash p)"

lemma clean_segs_normal:
  "\<forall>s \<in> set segs. slash \<notin> set s \<Longrightarrow>
   normal_segs (clean_segs r segs) \<and> (r \<longrightarrow> list_all plain_name (clean_segs r segs))"
proof (induction segs rule: rev_induct)
  case Nil
  then show ?case by (simp add: clean_segs_def normal_segs_def)
next
  case (snoc s segs)
  then have "normal_segs (rev (foldl (clean_step r) [] segs))"
    and "r \<longrightarrow> list_all plain_name (foldl (clean_step r) [] segs)"
    by (simp_all add: clean_segs_def)
  with snoc.prems show ?case
    using clean_step_normal [of "foldl (clean_step r) [] segs" r s]
    by (simp add: clean_segs_def)
qed

lemma clean_elems_normal: "normal_segs (clean_elems p)"
  using clean_segs_normal [of "split_on slash p"] split_on_no_sep
  by (auto simp: clean_elems_def)

lemma clean_elems_rooted: "is_rooted p \<Longrightarrow> list_all plain_name (clean_elems p)"
  using clean_segs_normal [of "split_on slash p"] split_on_no_sep
  by (auto simp: clean_elems_def)

lemma plain_name_elem: "list_all plain_name rest \<Longrightarrow> w \<in> set rest \<Longrightarrow> plain_name w"
  by (simp add: list_all_iff)

lemma normal_segs_elems: "normal_segs ns \<Longrightarrow> w \<in> set ns \<Longrightarrow> w \<noteq> [] \<and> slash \<notin> set w"
proof -
  assume "normal_segs ns" and w: "w \<in> set ns"
  then obtain k rest where ns: "ns = replicate k ''..'' @ rest" and r: "list_all plain_name rest"
    by (auto simp: normal_segs_split)
  from w ns have "w = ''..'' \<or> w \<in> set rest"
    by auto
  then show ?thesis
  proof
    assume "w \<in> set rest"
    with r have "plain_name w" by (rule plain_name_elem)
    then show ?thesis by (simp add: plain_name_def)
  qed simp
qed

lemma normal_segs_tl: "normal_segs ns \<Longrightarrow> normal_segs (tl ns)"
proof -
  assume "normal_segs ns"
  then obtain k rest where ns: "ns = replicate k ''..'' @ rest" and r: "list_all plain_name rest"
    by (auto simp: normal_segs_split)
  show ?thesis
  proof (cases k)
    case 0
    with ns r show ?thesis
      by (cases rest) (simp_all add: normal_segs_dotdots_plain [of _ 0, simplified])
  next
    case (Suc j)
    with ns r show ?thesis by (simp add: normal_segs_dotdots_plain)
  qed
qed

lemma clean_eq:
  "clean p =
     (if is_rooted p then slash # join_with slash (clean_elems p)
      else if clean_elems p = [] then ''.'' else join_with slash (clean_elems p))"
  by (auto simp: clean_def clean_elems_def is_rooted_def Let_def clean_segs_def clean_step_skip)

lemma join_with_normal_not_rooted:
  "normal_segs ns \<Longrightarrow> ns \<noteq> [] \<Longrightarrow> join_with slash ns \<noteq> [] \<and> \<not> is_rooted (join_with slash ns)"
proof (cases ns)
  case (Cons w ws)
  assume "normal_segs ns"
  with Cons have "w \<noteq> []" and "slash \<notin> set w" using normal_segs_elems by auto
  with Cons show ?thesis
    by (cases ws) (auto simp: is_rooted_def neq_Nil_conv)
qed simp

lemma split_on_clean:
  "split_on slash (clean p) =
     (if is_rooted p then (if clean_elems p = [] then [[], []] else [] # clean_elems p)
      else if clean_elems p = [] then [''.''] else clean_elems p)"
  using clean_elems_normal [of p] normal_segs_elems [of "clean_elems p"]
  by (auto simp: clean_eq split_on_join)

lemma is_rooted_clean [simp]: "is_rooted (clean p) = is_rooted p"
  using join_with_normal_not_rooted [OF clean_elems_normal [of p]]
  by (auto simp: clean_eq is_rooted_def)

text \<open>Clean is idempotent.\<close>

lemma clean_elems_clean: "clean_elems (clean p) = clean_elems p"
proof (cases "is_rooted p")
  case True
  then have pl: "list_all plain_name (clean_elems p)" by (rule clean_elems_rooted)
  have "foldl (clean_step True) [] ([] # clean_elems p) = rev (clean_elems p)"
    using pl by (simp add: clean_step_skip foldl_clean_step_plain)
  moreover have "foldl (clean_step True) [] [[], []] = []"
    by (simp add: clean_step_skip)
  ultimately show ?thesis
    using True by (auto simp: clean_elems_def [of "clean p"] split_on_clean clean_segs_def)
next
  case False
  have "foldl (clean_step False) [] [''.''] = []"
    by (simp add: clean_step_skip)
  with False show ?thesis
    using foldl_clean_step_normal [OF clean_elems_normal [of p]]
    by (auto simp: clean_elems_def [of "clean p"] split_on_clean clean_segs_def)
qed

lemma clean_clean: "clean (clean p) = clean p"
  by (simp add: clean_eq [of "clean p"] clean_elems_clean) (simp add: clean_eq)

section \<open>Join of a plain name and a cleaned path\<close>

lemma clean_not_Nil [simp]: "clean p \<noteq> []"
  using join_with_normal_not_rooted [OF clean_elems_normal [of p]]
  by (simp add: clean_eq)

lemma normal_segs_no_dotdot_head:
  "normal_segs ns \<Longrightarrow> (ns = [] \<or> hd ns \<noteq> ''..'') \<Longrightarrow> list_all plain_name ns"
proof -
  assume n: "normal_segs ns" and h: "ns = [] \<or> hd ns \<noteq> ''..''"
  from n obtain k rest where ns: "ns = replicate k ''..'' @ rest" and r: "list_all plain_name rest"
    by (auto simp: normal_segs_split)
  show ?thesis
  proof (cases k)
    case 0
    with ns r show ?thesis by simp
  next
    case (Suc j)
    with ns h show ?thesis by simp
  qed
qed

lemma plain_name_sep_not_rooted: "plain_name x \<Longrightarrow> \<not> is_rooted (x @ slash # c)"
  by (cases x) (auto simp: plain_name_def is_rooted_def)

lemma split_on_plain_sep: "plain_name x \<Longrightarrow> split_on slash (x @ slash # c) = x # split_on slash c"
  by (simp add: split_on_append_sep split_on_no_sep_eq plain_name_def)

lemma path_join_two: "x \<noteq> [] \<Longrightarrow> path_join [x, c] = clean (x @ slash # c)"
  by (simp add: path_join_def)

text \<open>
  \<open>Join(x, Clean(f))\<close> for a plain name \<open>x\<close>: the elements of \<open>Clean(f)\<close> below
  \<open>x\<close>, unless \<open>Clean(f)\<close> is relative and begins with \<open>..\<close>, which climbs out of
  \<open>x\<close> and leaves the rest of the elements.
\<close>

definition escapes :: "string \<Rightarrow> bool" where
  "escapes f \<longleftrightarrow> \<not> is_rooted f \<and> clean_elems f \<noteq> [] \<and> hd (clean_elems f) = ''..''"

lemma foldl_clean_split_clean:
  assumes x: "plain_name x"
  shows "foldl (clean_step False) [x] (split_on slash (clean f)) =
           rev (if escapes f then tl (clean_elems f) else x # clean_elems f)"
proof (cases "is_rooted f")
  case True
  then have "list_all plain_name (clean_elems f)" by (rule clean_elems_rooted)
  with True show ?thesis
    by (simp add: split_on_clean escapes_def clean_step_skip foldl_clean_step_plain)
next
  case nr: False
  let ?ns = "clean_elems f"
  have n: "normal_segs ?ns" by (rule clean_elems_normal)
  show ?thesis
  proof (cases "?ns = [] \<or> hd ?ns \<noteq> ''..''")
    case True
    with n have "list_all plain_name ?ns" by (rule normal_segs_no_dotdot_head)
    with True nr show ?thesis
      by (auto simp: split_on_clean escapes_def clean_step_skip foldl_clean_step_plain)
  next
    case False
    then obtain t where ns: "?ns = ''..'' # t" by (cases ?ns) auto
    from n have "normal_segs (tl ?ns)" by (rule normal_segs_tl)
    with ns have "foldl (clean_step False) [] t = rev t"
      by (simp add: foldl_clean_step_normal)
    moreover have "clean_step False [x] ''..'' = []"
      using x by (rule clean_step_dotdot_pop)
    ultimately show ?thesis
      using nr ns by (simp add: split_on_clean escapes_def)
  qed
qed

lemma clean_elems_join_clean:
  assumes x: "plain_name x"
  shows "clean_elems (path_join [x, clean f]) =
           (if escapes f then tl (clean_elems f) else x # clean_elems f)"
proof -
  have "x \<noteq> []" using x by (simp add: plain_name_def)
  then show ?thesis
    using x foldl_clean_split_clean [OF x, of f]
    by (simp add: path_join_two clean_elems_clean clean_elems_def [of "x @ slash # clean f"]
        plain_name_sep_not_rooted split_on_plain_sep clean_segs_def)
qed

lemma is_rooted_join_clean: "plain_name x \<Longrightarrow> \<not> is_rooted (path_join [x, clean f])"
  using plain_name_sep_not_rooted [of x]
  by (simp add: path_join_two plain_name_def)

text \<open>The elements a caller gets back when it splits the joined path at its slashes.\<close>

lemma split_on_join_clean:
  assumes x: "plain_name x"
  shows "split_on slash (path_join [x, clean f]) =
           (if escapes f then (if tl (clean_elems f) = [] then [''.''] else tl (clean_elems f))
            else x # clean_elems f)"
proof -
  have "x \<noteq> []" using x by (simp add: plain_name_def)
  then have "path_join [x, clean f] = clean (x @ slash # clean f)" by (rule path_join_two)
  then have "split_on slash (path_join [x, clean f]) =
      (if clean_elems (path_join [x, clean f]) = [] then [''.''] else clean_elems (path_join [x, clean f]))"
    using is_rooted_join_clean [OF x, of f] split_on_clean [of "x @ slash # clean f"]
    by (simp add: clean_elems_clean)
  with x show ?thesis by (simp add: clean_elems_join_clean)
qed

text \<open>Evaluation of the path functions on concrete strings.\<close>

declare clean_def [go_simps] clean_segs_def [go_simps] clean_step.simps [go_simps]
  path_join_def [go_simps] is_rooted_def [go_simps] clean_elems_def [go_simps]
  escapes_def [go_simps] plain_name_def [go_simps] trim_prefix_def [go_simps]
  has_suffix_def [go_simps] replace_all_char_def [go_simps]

end
