(* ===== verification/OsFs.thy ===== *)
theory OsFs
  imports GoPath
begin

text \<open>
  The operating-system file system as the Go \<open>os\<close> package sees it on Linux (library
  and kernel behaviour, modelled from the documentation of \<open>os\<close> and of the system
  calls): a flat store from absolute paths (lists of names) to nodes, directories,
  regular files with their bytes, and symbolic links with their target string, together
  with the process-wide working directory that \<open>os.Chdir\<close> changes. The root
  directory is implicit and always present.

  Path resolution (\<open>walk\<close>) follows the kernel: elements are looked up one after the
  other from the working directory or the root; \<open>..\<close> goes to the parent of the
  directory reached so far; a symbolic link met inside a path, or at its end when the
  call follows links, is replaced by its target, read relative to the directory that
  holds the link; at most \<open>max_symlinks\<close> (40, Linux's \<open>MAXSYMLINKS\<close>) links are
  followed in one lookup, and one more is \<open>ELOOP\<close>. The system calls built on it
  are those the sources reach: \<open>os.Mkdir\<close>, \<open>os.Chdir\<close>, \<open>os.Create\<close>,
  \<open>os.Open\<close>, \<open>os.Stat\<close>, \<open>os.Lstat\<close>, \<open>os.Readlink\<close>, \<open>(*File).Chdir\<close>,
  \<open>(*File).Write\<close>, \<open>os.ReadDir\<close>, \<open>os.Getwd\<close> and \<open>os.MkdirAll\<close>. Permission
  bits, ownership, hard links and devices are not modelled; no call fails for lack of
  permission or space. A file handle records the name it was opened with and the file it
  designates (its path stands for its inode; nothing in the program renames or removes).
\<close>

datatype node = Dir | File bytes | Symlink string

datatype os_error = ENOENT | EEXIST | ENOTDIR | EISDIR | ELOOP | EINVAL

record fs_state =
  fs_entries :: "(apath \<times> node) list"
  cwd :: apath

record os_file =
  f_name :: string
  f_path :: apath

definition max_symlinks :: nat where
  "max_symlinks = 40"

definition node_at :: "fs_state \<Rightarrow> apath \<Rightarrow> node option" where
  "node_at st p = (if p = [] then Some Dir else map_of (fs_entries st) p)"

definition set_node :: "fs_state \<Rightarrow> apath \<Rightarrow> node \<Rightarrow> fs_state" where
  "set_node st p n = st\<lparr>fs_entries := AList.update p n (fs_entries st)\<rparr>"

section \<open>Path resolution\<close>

fun walk :: "fs_state \<Rightarrow> nat \<Rightarrow> bool \<Rightarrow> apath \<Rightarrow> string list \<Rightarrow> os_error + apath" where
  "walk st fuel follow cur [] = Inr cur"
| "walk st fuel follow cur (s # rest) =
     (if s = [] \<or> s = ''.'' then walk st fuel follow cur rest
      else if s = ''..'' then walk st fuel follow (butlast cur) rest
      else
        (case node_at st (cur @ [s]) of
           None \<Rightarrow> (if list_all (\<lambda>r. r = []) rest then Inr (cur @ [s]) else Inl ENOENT)
         | Some Dir \<Rightarrow> walk st fuel follow (cur @ [s]) rest
         | Some (File _) \<Rightarrow> (if rest = [] then Inr (cur @ [s]) else Inl ENOTDIR)
         | Some (Symlink t) \<Rightarrow>
             (if rest = [] \<and> \<not> follow then Inr (cur @ [s])
              else
                (case fuel of
                   0 \<Rightarrow> Inl ELOOP
                 | Suc f \<Rightarrow> walk st f follow (if is_rooted t then [] else cur) (split_on slash t @ rest)))))"

lemmas walk_simps = walk.simps
declare walk.simps [simp del]

definition resolve :: "fs_state \<Rightarrow> bool \<Rightarrow> string \<Rightarrow> os_error + apath" where
  "resolve st follow name =
     (if name = [] then Inl ENOENT
      else walk st max_symlinks follow (if is_rooted name then [] else cwd st) (split_on slash name))"

section \<open>System calls\<close>

definition os_getwd :: "fs_state \<Rightarrow> string" where
  "os_getwd st = slash # join_with slash (cwd st)"

definition os_mkdir :: "fs_state \<Rightarrow> string \<Rightarrow> os_error + fs_state" where
  "os_mkdir st name =
     (case resolve st False name of
        Inl e \<Rightarrow> Inl e
      | Inr p \<Rightarrow> (if node_at st p \<noteq> None then Inl EEXIST else Inr (set_node st p Dir)))"

definition os_chdir :: "fs_state \<Rightarrow> string \<Rightarrow> os_error + fs_state" where
  "os_chdir st name =
     (case resolve st True name of
        Inl e \<Rightarrow> Inl e
      | Inr p \<Rightarrow>
          (case node_at st p of
             Some Dir \<Rightarrow> Inr (st\<lparr>cwd := p\<rparr>)
           | None \<Rightarrow> Inl ENOENT
           | Some _ \<Rightarrow> Inl ENOTDIR))"

definition os_create :: "fs_state \<Rightarrow> string \<Rightarrow> os_error + (fs_state \<times> os_file)" where
  "os_create st name =
     (case resolve st True name of
        Inl e \<Rightarrow> Inl e
      | Inr p \<Rightarrow>
          (case node_at st p of
             None \<Rightarrow>
               (if has_suffix name ''/'' then Inl EISDIR
                else Inr (set_node st p (File []), \<lparr>f_name = name, f_path = p\<rparr>))
           | Some (File _) \<Rightarrow> Inr (set_node st p (File []), \<lparr>f_name = name, f_path = p\<rparr>)
           | Some Dir \<Rightarrow> Inl EISDIR
           | Some (Symlink _) \<Rightarrow> Inl ELOOP))"

definition os_open :: "fs_state \<Rightarrow> string \<Rightarrow> os_error + os_file" where
  "os_open st name =
     (case resolve st True name of
        Inl e \<Rightarrow> Inl e
      | Inr p \<Rightarrow>
          (case node_at st p of
             None \<Rightarrow> Inl ENOENT
           | Some _ \<Rightarrow> Inr \<lparr>f_name = name, f_path = p\<rparr>))"

definition os_stat :: "fs_state \<Rightarrow> string \<Rightarrow> os_error + node" where
  "os_stat st name =
     (case resolve st True name of
        Inl e \<Rightarrow> Inl e
      | Inr p \<Rightarrow> (case node_at st p of None \<Rightarrow> Inl ENOENT | Some n \<Rightarrow> Inr n))"

definition os_lstat :: "fs_state \<Rightarrow> string \<Rightarrow> os_error + node" where
  "os_lstat st name =
     (case resolve st False name of
        Inl e \<Rightarrow> Inl e
      | Inr p \<Rightarrow> (case node_at st p of None \<Rightarrow> Inl ENOENT | Some n \<Rightarrow> Inr n))"

definition os_readlink :: "fs_state \<Rightarrow> string \<Rightarrow> os_error + string" where
  "os_readlink st name =
     (case resolve st False name of
        Inl e \<Rightarrow> Inl e
      | Inr p \<Rightarrow>
          (case node_at st p of
             None \<Rightarrow> Inl ENOENT
           | Some (Symlink t) \<Rightarrow> Inr t
           | Some _ \<Rightarrow> Inl EINVAL))"

text \<open>\<open>(*File).Stat\<close> (fstat) and \<open>(*File).Chdir\<close> (fchdir) act on the open file.\<close>

definition file_stat :: "fs_state \<Rightarrow> os_file \<Rightarrow> os_error + node" where
  "file_stat st f = (case node_at st (f_path f) of None \<Rightarrow> Inl ENOENT | Some n \<Rightarrow> Inr n)"

definition file_chdir :: "fs_state \<Rightarrow> os_file \<Rightarrow> os_error + fs_state" where
  "file_chdir st f =
     (case node_at st (f_path f) of Some Dir \<Rightarrow> Inr (st\<lparr>cwd := f_path f\<rparr>) | _ \<Rightarrow> Inl ENOTDIR)"

text \<open>
  \<open>(*File).Write\<close>, reached through \<open>io.Copy\<close>: the bytes go to the file at the
  handle's offset. Every handle of the program writes a file it has just created or
  truncated, and writes it front to back, so the offset is the end of the file.
\<close>

definition file_write :: "fs_state \<Rightarrow> os_file \<Rightarrow> bytes \<Rightarrow> fs_state" where
  "file_write st f data =
     (case node_at st (f_path f) of
        Some (File c) \<Rightarrow> set_node st (f_path f) (File (c @ data))
      | _ \<Rightarrow> st)"

text \<open>
  \<open>os.ReadDir\<close> lists the entries of a directory sorted by name (byte order); each
  entry carries its name and whether it is a directory, read without following a
  symbolic link (\<open>DirEntry.IsDir\<close> of the \<open>d_type\<close> the kernel reports).
\<close>

definition dir_names :: "fs_state \<Rightarrow> apath \<Rightarrow> fname list" where
  "dir_names st p = sort (remdups (map last (filter (\<lambda>q. q \<noteq> [] \<and> butlast q = p) (map fst (fs_entries st)))))"

definition dir_entries :: "fs_state \<Rightarrow> apath \<Rightarrow> (fname \<times> bool) list" where
  "dir_entries st p = map (\<lambda>n. (n, node_at st (p @ [n]) = Some Dir)) (dir_names st p)"

definition os_read_dir :: "fs_state \<Rightarrow> string \<Rightarrow> os_error + (fname \<times> bool) list" where
  "os_read_dir st name =
     (case resolve st True name of
        Inl e \<Rightarrow> Inl e
      | Inr p \<Rightarrow>
          (case node_at st p of
             None \<Rightarrow> Inl ENOENT
           | Some Dir \<Rightarrow> Inr (dir_entries st p)
           | Some _ \<Rightarrow> Inl ENOTDIR))"

text \<open>
  \<open>os.MkdirAll\<close> (Go's \<open>os/path.go\<close>): succeed at once if the path already names
  a directory, fail with \<open>ENOTDIR\<close> if it names something else; otherwise create the
  parent first (the prefix before the last slash that is not trailing), then the path
  itself, and accept a failed \<open>Mkdir\<close> when \<open>Lstat\<close> then shows a directory.
\<close>

definition mkdir_all_parent :: "string \<Rightarrow> string" where
  "mkdir_all_parent path =
     rev (tl (dropWhile (\<lambda>c. c \<noteq> slash) (dropWhile (\<lambda>c. c = slash) (rev path))))"

lemma mkdir_all_parent_shorter:
  "mkdir_all_parent path \<noteq> [] \<Longrightarrow> length (mkdir_all_parent path) < length path"
proof -
  let ?x = "dropWhile (\<lambda>c. c \<noteq> slash) (dropWhile (\<lambda>c. c = slash) (rev path))"
  assume "mkdir_all_parent path \<noteq> []"
  then have "tl ?x \<noteq> []" by (simp add: mkdir_all_parent_def)
  then have "?x \<noteq> []" by (metis list.sel(2))
  then have l: "0 < length ?x" using length_greater_0_conv by blast
  have le: "length ?x \<le> length path"
    by (metis dual_order.trans length_dropWhile_le length_rev)
  have "length (mkdir_all_parent path) = length ?x - 1"
    by (simp only: mkdir_all_parent_def length_rev length_tl)
  with l le show ?thesis by linarith
qed

function mkdir_all :: "fs_state \<Rightarrow> string \<Rightarrow> os_error + fs_state" where
  "mkdir_all st path =
     (case os_stat st path of
        Inr n \<Rightarrow> (if n = Dir then Inr st else Inl ENOTDIR)
      | Inl _ \<Rightarrow>
          (case (if mkdir_all_parent path \<noteq> [] then mkdir_all st (mkdir_all_parent path) else Inr st) of
             Inl e \<Rightarrow> Inl e
           | Inr st1 \<Rightarrow>
               (case os_mkdir st1 path of
                  Inr st2 \<Rightarrow> Inr st2
                | Inl e \<Rightarrow> (case os_lstat st1 path of Inr Dir \<Rightarrow> Inr st1 | _ \<Rightarrow> Inl e))))"
  by pat_completeness auto
termination
  by (relation "measure (\<lambda>(st, path). length path)") (auto simp: mkdir_all_parent_shorter)

declare mkdir_all.simps [simp del]

section \<open>Well-formed file systems\<close>

text \<open>
  A well-formed store has one entry per path, names every node by plain names, keeps
  every node inside a directory, and has a directory as working directory.
\<close>

definition fs_keys :: "fs_state \<Rightarrow> apath list" where
  "fs_keys st = map fst (fs_entries st)"

definition wf_fs :: "fs_state \<Rightarrow> bool" where
  "wf_fs st \<longleftrightarrow> distinct (fs_keys st) \<and>
     (\<forall>q \<in> set (fs_keys st). q \<noteq> [] \<and> list_all plain_name q \<and> node_at st (butlast q) = Some Dir) \<and>
     list_all plain_name (cwd st) \<and> node_at st (cwd st) = Some Dir"

definition is_link :: "node option \<Rightarrow> bool" where
  "is_link n \<longleftrightarrow> (case n of Some (Symlink _) \<Rightarrow> True | _ \<Rightarrow> False)"

definition no_links_under :: "fs_state \<Rightarrow> apath \<Rightarrow> bool" where
  "no_links_under st pre \<longleftrightarrow> (\<forall>q \<in> set (fs_keys st). prefix pre q \<longrightarrow> \<not> is_link (node_at st q))"

lemma node_at_Nil [simp, fs_simps]: "node_at st [] = Some Dir"
  by (simp add: node_at_def)

lemma node_at_set_node [fs_simps]:
  "p \<noteq> [] \<Longrightarrow> node_at (set_node st p n) q = (if q = p then Some n else node_at st q)"
  by (simp add: node_at_def set_node_def update_conv')

lemma node_at_set_node_same: "node_at st p \<noteq> Some Dir \<Longrightarrow> node_at (set_node st p n) p = Some n"
  by (cases "p = []") (simp_all add: node_at_set_node)

lemma node_at_cwd_update [simp]: "node_at (st\<lparr>cwd := d\<rparr>) = node_at st"
  by (simp add: node_at_def fun_eq_iff)

lemma fs_keys_set_node: "set (fs_keys (set_node st p n)) = insert p (set (fs_keys st))"
  by (simp add: fs_keys_def set_node_def dom_update)

lemma cwd_set_node [simp]: "cwd (set_node st p n) = cwd st"
  by (simp add: set_node_def)

lemma node_at_key: "q \<noteq> [] \<Longrightarrow> node_at st q \<noteq> None \<longleftrightarrow> q \<in> set (fs_keys st)"
  by (auto simp: node_at_def fs_keys_def map_of_eq_None_iff)

lemma wf_fs_parent:
  "wf_fs st \<Longrightarrow> node_at st p \<noteq> None \<Longrightarrow> p \<noteq> [] \<Longrightarrow>
   node_at st (butlast p) = Some Dir \<and> list_all plain_name p"
  using node_at_key [of p st] by (auto simp: wf_fs_def)

text \<open>Every proper ancestor of an existing node is a directory.\<close>

lemma wf_fs_ancestor:
  "wf_fs st \<Longrightarrow> node_at st p \<noteq> None \<Longrightarrow> prefix q p \<Longrightarrow> q \<noteq> p \<Longrightarrow> node_at st q = Some Dir"
proof (induction p rule: rev_induct)
  case Nil
  then show ?case by simp
next
  case (snoc x p)
  from snoc.prems(1,2) have pd: "node_at st p = Some Dir"
    using wf_fs_parent [of st "p @ [x]"] by simp
  from snoc.prems(3,4) have "prefix q p"
    by (metis prefix_snoc)
  then show ?case
    using pd snoc.IH [OF snoc.prems(1)] by (cases "q = p") auto
qed

text \<open>Setting a node keeps the store well formed when the node's parent is a directory
  and a directory is only ever replaced by a directory.\<close>

lemma set_node_wf:
  assumes wf: "wf_fs st" and p: "p \<noteq> []" "list_all plain_name p" "node_at st (butlast p) = Some Dir"
    and keep: "node_at st p = Some Dir \<Longrightarrow> n = Dir"
  shows "wf_fs (set_node st p n)"
proof -
  have "distinct (fs_keys (set_node st p n))"
    using wf by (simp add: wf_fs_def fs_keys_def set_node_def distinct_update)
  moreover have "node_at (set_node st p n) (butlast q) = Some Dir"
    if q: "q \<in> set (fs_keys st)" for q
  proof -
    from wf q have qd: "node_at st (butlast q) = Some Dir" by (auto simp: wf_fs_def)
    with keep p(1) show ?thesis by (auto simp: node_at_set_node)
  qed
  moreover have "node_at (set_node st p n) (butlast p) = Some Dir"
    using p butlast_neq_self [of p] by (simp add: node_at_set_node)
  moreover have "node_at (set_node st p n) (cwd st) = Some Dir"
    using wf keep p(1) by (auto simp: wf_fs_def node_at_set_node)
  ultimately show ?thesis
    using wf p by (auto simp: wf_fs_def fs_keys_set_node)
qed

section \<open>Resolution lemmas\<close>

lemma plain_name_not_rooted: "plain_name s \<Longrightarrow> \<not> is_rooted s"
  by (cases s) (auto simp: plain_name_def is_rooted_def)

lemma plain_name_no_suffix: "plain_name s \<Longrightarrow> \<not> has_suffix s ''/''"
proof
  assume p: "plain_name s" and h: "has_suffix s ''/''"
  from h have "drop (length s - 1) s = [slash]" by (simp add: has_suffix_def)
  then have "slash \<in> set (drop (length s - 1) s)" by simp
  then have "slash \<in> set s" by (rule in_set_dropD)
  with p show False by (simp add: plain_name_def)
qed

lemma plain_name_facts:
  "plain_name s \<Longrightarrow> s \<noteq> [] \<and> \<not> is_rooted s \<and> split_on slash s = [s] \<and> \<not> has_suffix s ''/''"
  using plain_name_not_rooted [of s] plain_name_no_suffix [of s]
  by (simp add: plain_name_def split_on_no_sep_eq)

lemma resolve_plain:
  "plain_name s \<Longrightarrow> resolve st follow s = walk st max_symlinks follow (cwd st) [s]"
  by (simp add: resolve_def plain_name_facts)

lemma walk_plain:
  "plain_name s \<Longrightarrow> \<not> follow \<or> \<not> is_link (node_at st (d @ [s])) \<Longrightarrow>
   walk st fuel follow d [s] = Inr (d @ [s])"
  by (auto simp: plain_name_def is_link_def walk_simps split: option.splits node.splits)

lemma os_mkdir_plain:
  "plain_name s \<Longrightarrow>
   os_mkdir st s =
     (if node_at st (cwd st @ [s]) \<noteq> None then Inl EEXIST else Inr (set_node st (cwd st @ [s]) Dir))"
  by (simp add: os_mkdir_def resolve_plain walk_plain)

lemma os_chdir_plain:
  "plain_name s \<Longrightarrow> \<not> is_link (node_at st (cwd st @ [s])) \<Longrightarrow>
   os_chdir st s =
     (case node_at st (cwd st @ [s]) of
        Some Dir \<Rightarrow> Inr (st\<lparr>cwd := cwd st @ [s]\<rparr>)
      | None \<Rightarrow> Inl ENOENT
      | Some _ \<Rightarrow> Inl ENOTDIR)"
  by (simp add: os_chdir_def resolve_plain walk_plain)

lemma os_create_plain:
  "plain_name s \<Longrightarrow> \<not> is_link (node_at st (cwd st @ [s])) \<Longrightarrow>
   os_create st s =
     (if node_at st (cwd st @ [s]) = Some Dir then Inl EISDIR
      else Inr (set_node st (cwd st @ [s]) (File []), \<lparr>f_name = s, f_path = cwd st @ [s]\<rparr>))"
  by (auto simp: os_create_def resolve_plain walk_plain plain_name_facts is_link_def
      split: option.splits node.splits)

text \<open>A path of existing directories resolves to itself, whatever the link budget.\<close>

lemma walk_real:
  "wf_fs st \<Longrightarrow> node_at st (c @ q) = Some Dir \<Longrightarrow> list_all plain_name q \<Longrightarrow>
   walk st fuel follow c q = Inr (c @ q)"
proof (induction q arbitrary: c)
  case Nil
  then show ?case by (simp add: walk_simps)
next
  case (Cons s q)
  have sd: "node_at st (c @ [s]) = Some Dir"
  proof (cases "q = []")
    case True
    with Cons.prems show ?thesis by simp
  next
    case False
    have "prefix (c @ [s]) (c @ s # q)" by (simp add: prefix_def)
    with wf_fs_ancestor [OF Cons.prems(1), of "c @ s # q" "c @ [s]"] Cons.prems(2) False
    show ?thesis by simp
  qed
  from Cons.prems have ps: "plain_name s" and pq: "list_all plain_name q" by simp_all
  have "walk st fuel follow (c @ [s]) q = Inr (c @ [s] @ q)"
    using Cons.IH [OF Cons.prems(1) _ pq] Cons.prems(2) by simp
  with ps sd show ?case by (auto simp: plain_name_def walk_simps)
qed

lemma walk_real_append:
  "wf_fs st \<Longrightarrow> node_at st (c @ q) = Some Dir \<Longrightarrow> list_all plain_name q \<Longrightarrow>
   walk st fuel follow c (q @ ys) = walk st fuel follow (c @ q) ys"
proof (induction q arbitrary: c)
  case Nil
  then show ?case by simp
next
  case (Cons s q)
  have sd: "node_at st (c @ [s]) = Some Dir"
  proof (cases "q = []")
    case True
    with Cons.prems show ?thesis by simp
  next
    case False
    have "prefix (c @ [s]) (c @ s # q)" by (simp add: prefix_def)
    with wf_fs_ancestor [OF Cons.prems(1), of "c @ s # q" "c @ [s]"] Cons.prems(2) False
    show ?thesis by simp
  qed
  from Cons.prems have ps: "plain_name s" and pq: "list_all plain_name q" by simp_all
  have "walk st fuel follow (c @ [s]) (q @ ys) = walk st fuel follow (c @ [s] @ q) ys"
    using Cons.IH [OF Cons.prems(1) _ pq] Cons.prems(2) by simp
  with ps sd show ?case by (auto simp: plain_name_def walk_simps)
qed

lemma os_chdir_abs:
  assumes wf: "wf_fs st" and d: "node_at st d = Some Dir" "list_all plain_name d"
  shows "os_chdir st (slash # join_with slash d) = Inr (st\<lparr>cwd := d\<rparr>)"
proof -
  have ns: "\<forall>w \<in> set d. slash \<notin> set w"
    using d(2) by (auto simp: list_all_iff plain_name_def)
  have "walk st max_symlinks True [] (split_on slash (slash # join_with slash d)) = Inr d"
  proof (cases "d = []")
    case True
    then show ?thesis by (simp add: walk_simps)
  next
    case False
    then have "split_on slash (slash # join_with slash d) = [] # d"
      using ns by (simp add: split_on_join)
    with walk_real [OF wf, of "[]" d] d show ?thesis by (simp add: walk_simps)
  qed
  with d show ?thesis
    by (simp add: os_chdir_def resolve_def is_rooted_def)
qed

section \<open>The system calls keep the store well formed\<close>

lemma wf_fs_butlast_dir:
  "wf_fs st \<Longrightarrow> node_at st cur = Some Dir \<Longrightarrow> list_all plain_name cur \<Longrightarrow>
   node_at st (butlast cur) = Some Dir \<and> list_all plain_name (butlast cur)"
  by (cases "cur = []") (auto dest: wf_fs_parent simp: list_all_iff in_set_butlastD)

lemma walk_wf:
  "wf_fs st \<Longrightarrow> node_at st cur = Some Dir \<Longrightarrow> list_all plain_name cur \<Longrightarrow>
   \<forall>s \<in> set segs. slash \<notin> set s \<Longrightarrow> walk st fuel follow cur segs = Inr p \<Longrightarrow>
   list_all plain_name p \<and> node_at st p \<noteq> None \<or>
   list_all plain_name p \<and> p \<noteq> [] \<and> node_at st (butlast p) = Some Dir"
proof (induction st fuel follow cur segs rule: walk.induct)
  case (1 st fuel follow cur)
  then show ?case by (auto simp: walk_simps)
next
  case (2 st fuel follow cur s rest)
  have rest: "\<forall>s \<in> set rest. slash \<notin> set s" using "2.prems"(4) by simp
  show ?case
  proof (cases "s = [] \<or> s = ''.''")
    case True
    with "2.IH"(1) [OF True "2.prems"(1-3) rest] "2.prems"(5) show ?thesis by (simp add: walk_simps)
  next
    case nd: False
    show ?thesis
    proof (cases "s = ''..''")
      case True
      from wf_fs_butlast_dir [OF "2.prems"(1-3)] have
        "node_at st (butlast cur) = Some Dir" "list_all plain_name (butlast cur)" by simp_all
      with "2.IH"(2) [OF nd True "2.prems"(1) _ _ rest] "2.prems"(5) nd True show ?thesis by (simp add: walk_simps)
    next
      case ndd: False
      with nd "2.prems"(4) have ps: "plain_name s" by (simp add: plain_name_def)
      with "2.prems"(3) have pl: "list_all plain_name (cur @ [s])" by simp
      have tsplit: "\<forall>w \<in> set (split_on slash t @ rest). slash \<notin> set w" for t
        using rest split_on_no_sep by fastforce
      show ?thesis
      proof (cases "node_at st (cur @ [s])")
        case None
        with "2.prems"(2,5) nd ndd pl show ?thesis by (auto simp: walk_simps split: if_splits)
      next
        case (Some n)
        show ?thesis
        proof (cases n)
          case Dir
          with Some "2.IH"(3) [OF nd ndd Some Dir "2.prems"(1) _ pl rest] "2.prems"(5) nd ndd
          show ?thesis by (simp add: walk_simps)
        next
          case (File c)
          with Some "2.prems"(5) nd ndd pl show ?thesis by (auto simp: walk_simps split: if_splits)
        next
          case (Symlink t)
          show ?thesis
          proof (cases "rest = [] \<and> \<not> follow")
            case True
            with Some Symlink "2.prems"(5) nd ndd pl show ?thesis by (auto simp: walk_simps)
          next
            case False
            then obtain f where f: "fuel = Suc f"
              using Some Symlink "2.prems"(5) nd ndd by (cases fuel) (auto simp: walk_simps)
            have "node_at st (if is_rooted t then [] else cur) = Some Dir"
              and "list_all plain_name (if is_rooted t then [] else cur)"
              using "2.prems"(2,3) by simp_all
            with "2.IH"(4) [OF nd ndd Some Symlink False f "2.prems"(1)] tsplit [of t]
              "2.prems"(5) Some Symlink False f nd ndd
            show ?thesis by (simp add: walk_simps)
          qed
        qed
      qed
    qed
  qed
qed

lemma resolve_wf:
  "wf_fs st \<Longrightarrow> resolve st follow name = Inr p \<Longrightarrow>
   list_all plain_name p \<and> node_at st p \<noteq> None \<or>
   list_all plain_name p \<and> p \<noteq> [] \<and> node_at st (butlast p) = Some Dir"
  unfolding resolve_def
  using walk_wf [of st "if is_rooted name then [] else cwd st" "split_on slash name" _ follow p]
    split_on_no_sep
  by (auto simp: wf_fs_def split: if_splits)

lemma set_node_wf_existing:
  "wf_fs st \<Longrightarrow> node_at st p = Some m \<Longrightarrow> p \<noteq> [] \<Longrightarrow> (m = Dir \<Longrightarrow> n = Dir) \<Longrightarrow>
   wf_fs (set_node st p n)"
  using wf_fs_parent [of st p] set_node_wf [of st p n] by simp

lemma os_mkdir_wf: "wf_fs st \<Longrightarrow> os_mkdir st name = Inr st' \<Longrightarrow> wf_fs st'"
  using resolve_wf [of st False name] set_node_wf [of st _ Dir]
  by (auto simp: os_mkdir_def split: sum.splits if_splits)

lemma os_create_wf: "wf_fs st \<Longrightarrow> os_create st name = Inr (st', h) \<Longrightarrow> wf_fs st'"
  using resolve_wf [of st True name] set_node_wf [of st _ "File []"]
    set_node_wf_existing [of st _ _ "File []"]
  by (fastforce simp: os_create_def split: sum.splits if_splits option.splits node.splits)

lemma os_chdir_wf: "wf_fs st \<Longrightarrow> os_chdir st name = Inr st' \<Longrightarrow> wf_fs st'"
  using resolve_wf [of st True name]
  by (auto simp: os_chdir_def wf_fs_def fs_keys_def node_at_def
      split: sum.splits option.splits node.splits if_splits)

lemma file_write_wf: "wf_fs st \<Longrightarrow> wf_fs (file_write st h data)"
proof (cases "\<exists>c. node_at st (f_path h) = Some (File c)")
  case True
  assume wf: "wf_fs st"
  from True obtain c where c: "node_at st (f_path h) = Some (File c)" by blast
  then have "f_path h \<noteq> []" by auto
  with wf c show ?thesis
    using set_node_wf_existing [of st "f_path h" "File c" "File (c @ data)"]
    by (simp add: file_write_def)
next
  case False
  assume "wf_fs st"
  with False show ?thesis by (auto simp: file_write_def split: option.splits node.splits)
qed

section \<open>Frame properties\<close>

text \<open>
  \<open>unchanged_outside pre st st'\<close>: every node whose path does not lie under \<open>pre\<close>
  is the same in both stores (checked over the finitely many stored paths).
\<close>

definition unchanged_outside :: "apath \<Rightarrow> fs_state \<Rightarrow> fs_state \<Rightarrow> bool" where
  "unchanged_outside pre st st' \<longleftrightarrow>
     (\<forall>q \<in> set (fs_keys st) \<union> set (fs_keys st'). \<not> prefix pre q \<longrightarrow> node_at st' q = node_at st q)"

lemma node_at_not_key: "q \<notin> set (fs_keys st) \<Longrightarrow> q \<noteq> [] \<Longrightarrow> node_at st q = None"
  using node_at_key [of q st] by simp

lemma unchanged_outside_node_at:
  "unchanged_outside pre st st' \<Longrightarrow> \<not> prefix pre q \<Longrightarrow> node_at st' q = node_at st q"
proof (cases "q = [] \<or> q \<in> set (fs_keys st) \<union> set (fs_keys st')")
  case True
  then show "unchanged_outside pre st st' \<Longrightarrow> \<not> prefix pre q \<Longrightarrow> ?thesis"
    by (auto simp: unchanged_outside_def)
next
  case False
  then show ?thesis by (simp add: node_at_not_key)
qed

lemma unchanged_outside_iff:
  "unchanged_outside pre st st' \<longleftrightarrow> (\<forall>q. \<not> prefix pre q \<longrightarrow> node_at st' q = node_at st q)"
proof
  assume "unchanged_outside pre st st'"
  then show "\<forall>q. \<not> prefix pre q \<longrightarrow> node_at st' q = node_at st q"
    using unchanged_outside_node_at by blast
next
  assume "\<forall>q. \<not> prefix pre q \<longrightarrow> node_at st' q = node_at st q"
  then show "unchanged_outside pre st st'" by (simp add: unchanged_outside_def)
qed

lemma unchanged_outside_refl [simp]: "unchanged_outside pre st st"
  by (simp add: unchanged_outside_def)

lemma unchanged_outside_trans:
  "unchanged_outside pre st st' \<Longrightarrow> unchanged_outside pre st' st'' \<Longrightarrow> unchanged_outside pre st st''"
  by (simp add: unchanged_outside_iff)

lemma unchanged_outside_set_node:
  "prefix pre p \<Longrightarrow> p \<noteq> [] \<Longrightarrow> unchanged_outside pre st (set_node st p n)"
  by (auto simp: unchanged_outside_iff node_at_set_node)

lemma unchanged_outside_cwd [simp]:
  "unchanged_outside pre st (st'\<lparr>cwd := d\<rparr>) = unchanged_outside pre st st'"
  by (simp add: unchanged_outside_iff)

lemma no_links_under_iff:
  "no_links_under st pre \<longleftrightarrow> (\<forall>q. prefix pre q \<longrightarrow> \<not> is_link (node_at st q))"
proof -
  have "\<not> is_link (node_at st q)" if "q \<notin> set (fs_keys st)" for q
    using that by (cases "q = []") (simp_all add: is_link_def node_at_not_key)
  then show ?thesis by (auto simp: no_links_under_def)
qed

lemma no_links_under_set_node:
  "no_links_under st pre \<Longrightarrow> \<not> is_link (Some n) \<Longrightarrow> p \<noteq> [] \<Longrightarrow> no_links_under (set_node st p n) pre"
  by (simp add: no_links_under_iff node_at_set_node)

lemma no_links_under_cwd [simp]: "no_links_under (st\<lparr>cwd := d\<rparr>) pre = no_links_under st pre"
  by (simp add: no_links_under_iff)

text \<open>Directories are never removed or replaced by the calls the program makes.\<close>

definition keeps_dirs :: "fs_state \<Rightarrow> fs_state \<Rightarrow> bool" where
  "keeps_dirs st st' \<longleftrightarrow> (\<forall>p. node_at st p = Some Dir \<longrightarrow> node_at st' p = Some Dir)"

lemma keeps_dirs_refl [simp]: "keeps_dirs st st"
  by (simp add: keeps_dirs_def)

lemma keeps_dirs_trans: "keeps_dirs st st' \<Longrightarrow> keeps_dirs st' st'' \<Longrightarrow> keeps_dirs st st''"
  by (simp add: keeps_dirs_def)

lemma keeps_dirs_cwd [simp]: "keeps_dirs st (st'\<lparr>cwd := d\<rparr>) = keeps_dirs st st'"
  by (simp add: keeps_dirs_def)

lemma node_at_set_node_Nil: "node_at (set_node st [] n) = node_at st"
  by (simp add: fun_eq_iff node_at_def set_node_def update_conv')

lemma keeps_dirs_set_node:
  "node_at st p \<noteq> Some Dir \<or> n = Dir \<Longrightarrow> keeps_dirs st (set_node st p n)"
  by (cases "p = []") (auto simp: keeps_dirs_def node_at_set_node node_at_set_node_Nil)

lemma os_mkdir_keeps: "os_mkdir st name = Inr st' \<Longrightarrow> keeps_dirs st st'"
  by (auto simp: os_mkdir_def keeps_dirs_set_node split: sum.splits if_splits)

lemma os_create_keeps: "os_create st name = Inr (st', h) \<Longrightarrow> keeps_dirs st st'"
  by (auto simp: os_create_def keeps_dirs_set_node split: sum.splits if_splits option.splits node.splits)

lemma os_chdir_keeps: "os_chdir st name = Inr st' \<Longrightarrow> keeps_dirs st st'"
  by (auto simp: os_chdir_def split: sum.splits option.splits node.splits)

lemma file_write_keeps: "keeps_dirs st (file_write st h data)"
  by (auto simp: file_write_def keeps_dirs_set_node split: option.splits node.splits)

lemma os_mkdir_cwd: "os_mkdir st name = Inr st' \<Longrightarrow> cwd st' = cwd st"
  by (auto simp: os_mkdir_def split: sum.splits if_splits)

lemma os_create_cwd: "os_create st name = Inr (st', h) \<Longrightarrow> cwd st' = cwd st"
  by (auto simp: os_create_def split: sum.splits if_splits option.splits node.splits)

lemma wf_fs_cwd:
  "wf_fs st \<Longrightarrow> node_at st d = Some Dir \<Longrightarrow> list_all plain_name d \<Longrightarrow> wf_fs (st\<lparr>cwd := d\<rparr>)"
  by (simp add: wf_fs_def fs_keys_def node_at_def)

lemma trim_prefix_not_rooted: "\<not> is_rooted s \<Longrightarrow> trim_prefix s ''/'' = s"
  by (cases s) (auto simp: trim_prefix_def is_rooted_def)

lemma file_write_cases:
  "file_write st f data = st \<or>
   (\<exists>c. node_at st (f_path f) = Some (File c) \<and> f_path f \<noteq> [] \<and>
        file_write st f data = set_node st (f_path f) (File (c @ data)))"
  by (cases "node_at st (f_path f)") (auto simp: file_write_def split: node.splits)

section \<open>Resolution through directories and links\<close>

text \<open>
  A lookup that follows links never ends on a link; a lookup that reaches a directory
  can be continued from there; a trailing \<open>/.\<close> on a directory changes nothing.
\<close>

lemma walk_follow_no_link:
  "wf_fs st \<Longrightarrow> node_at st cur = Some Dir \<Longrightarrow> list_all plain_name cur \<Longrightarrow>
   \<forall>s \<in> set segs. slash \<notin> set s \<Longrightarrow> follow \<Longrightarrow> walk st fuel follow cur segs = Inr p \<Longrightarrow>
   \<not> is_link (node_at st p)"
proof (induction st fuel follow cur segs rule: walk.induct)
  case (1 st fuel follow cur)
  then show ?case by (simp add: walk_simps is_link_def)
next
  case (2 st fuel follow cur s rest)
  have rest: "\<forall>s \<in> set rest. slash \<notin> set s" using "2.prems"(4) by simp
  from wf_fs_butlast_dir [OF "2.prems"(1-3)] have bl:
    "node_at st (butlast cur) = Some Dir" "list_all plain_name (butlast cur)" by simp_all
  show ?case
  proof (cases "s = [] \<or> s = ''.'' \<or> s = ''..''")
    case True
    then show ?thesis
      using "2.IH"(1,2) "2.prems" rest bl by (auto simp: walk_simps)
  next
    case False
    with "2.prems"(4) have "plain_name s" by (simp add: plain_name_def)
    with "2.prems"(3) have pl: "list_all plain_name (cur @ [s])" by simp
    have tsplit: "\<forall>w \<in> set (split_on slash t @ rest). slash \<notin> set w" for t
      using rest split_on_no_sep by fastforce
    show ?thesis
    proof (cases "node_at st (cur @ [s])")
      case None
      with "2.prems"(6) False show ?thesis by (auto simp: walk_simps is_link_def split: if_splits)
    next
      case (Some n)
      show ?thesis
      proof (cases n)
        case Dir
        with Some "2.IH"(3) [OF _ _ Some Dir "2.prems"(1) _ pl rest "2.prems"(5)] "2.prems"(6) False
        show ?thesis by (simp add: walk_simps)
      next
        case (File c)
        with Some "2.prems"(6) False show ?thesis by (auto simp: walk_simps is_link_def split: if_splits)
      next
        case (Symlink t)
        then obtain f where f: "fuel = Suc f"
          using Some "2.prems"(5,6) False by (cases fuel) (auto simp: walk_simps)
        have "node_at st (if is_rooted t then [] else cur) = Some Dir"
          and "list_all plain_name (if is_rooted t then [] else cur)"
          using "2.prems"(2,3) by simp_all
        with "2.IH"(4) [OF _ _ Some Symlink _ f "2.prems"(1) _ _ _ "2.prems"(5)] tsplit [of t] "2.prems"(5,6) Some Symlink f False
        show ?thesis by (simp add: walk_simps)
      qed
    qed
  qed
qed

lemma os_open_no_link:
  "wf_fs st \<Longrightarrow> os_open st name = Inr f \<Longrightarrow> \<exists>n. file_stat st f = Inr n \<and> \<not> is_link (Some n)"
  using walk_follow_no_link [of st "if is_rooted name then [] else cwd st" "split_on slash name" True max_symlinks]
    split_on_no_sep [of _ slash name]
  by (auto simp: os_open_def resolve_def file_stat_def wf_fs_def split: if_splits sum.splits option.splits)

lemma walk_append_dir:
  "follow \<Longrightarrow> walk st fuel follow cur xs = Inr p \<Longrightarrow> node_at st p = Some Dir \<Longrightarrow>
   \<exists>k. walk st fuel follow cur (xs @ ys) = walk st k follow p ys"
proof (induction st fuel follow cur xs rule: walk.induct)
  case (1 st fuel follow cur)
  then show ?case by (auto simp: walk_simps)
next
  case (2 st fuel follow cur s rest)
  show ?case
  proof (cases "s = [] \<or> s = ''.'' \<or> s = ''..''")
    case True
    then show ?thesis using "2.IH"(1,2) "2.prems" by (auto simp: walk_simps)
  next
    case False
    show ?thesis
    proof (cases "node_at st (cur @ [s])")
      case None
      with "2.prems" False show ?thesis by (auto simp: walk_simps split: if_splits)
    next
      case (Some n)
      then show ?thesis
        using "2.IH"(3,4) [OF _ _ Some] "2.prems" False
        by (cases n; cases fuel) (auto simp: walk_simps split: if_splits)
    qed
  qed
qed

lemma walk_snoc_dot:
  "follow \<Longrightarrow> walk st fuel follow cur (xs @ [''.'']) = Inr p \<Longrightarrow> node_at st p = Some Dir \<Longrightarrow>
   walk st fuel follow cur xs = Inr p"
proof (induction st fuel follow cur xs rule: walk.induct)
  case (1 st fuel follow cur)
  then show ?case by (simp add: walk_simps)
next
  case (2 st fuel follow cur s rest)
  show ?case
  proof (cases "s = [] \<or> s = ''.'' \<or> s = ''..''")
    case True
    then show ?thesis using "2.IH"(1,2) "2.prems" by (auto simp: walk_simps)
  next
    case False
    show ?thesis
    proof (cases "node_at st (cur @ [s])")
      case None
      with "2.prems" False show ?thesis by (auto simp: walk_simps split: if_splits)
    next
      case (Some n)
      then show ?thesis
        using "2.IH"(3,4) [OF _ _ Some] "2.prems" False
        by (cases n; cases fuel) (auto simp: walk_simps split: if_splits)
    qed
  qed
qed

text \<open>Evaluation of the system calls on concrete stores.\<close>

declare node_at_def [fs_simps] set_node_def [fs_simps] resolve_def [fs_simps] walk_simps [fs_simps]
  max_symlinks_def [fs_simps] os_getwd_def [fs_simps] os_mkdir_def [fs_simps] os_chdir_def [fs_simps]
  os_create_def [fs_simps] os_open_def [fs_simps] os_stat_def [fs_simps] os_lstat_def [fs_simps]
  os_readlink_def [fs_simps] file_stat_def [fs_simps] file_chdir_def [fs_simps]
  file_write_def [fs_simps] dir_names_def [fs_simps] dir_entries_def [fs_simps] os_read_dir_def [fs_simps]
  wf_fs_def [fs_simps] fs_keys_def [fs_simps] no_links_under_def [fs_simps] is_link_def [fs_simps]
  unchanged_outside_def [fs_simps]

end
