(* ===== verification/Upload.thy ===== *)
theory Upload
  imports OsFs
begin

text \<open>
  The upload server of \<open>src/main.go\<close>: the handlers \<open>chrootHandler\<close> (POST
  \<open>/chroot\<close>: every multipart file field becomes a file under \<open>chroot/\<close>, the
  field name read as a relative path, intermediate directories created on the way) and
  \<open>uploadHandler\<close> (POST \<open>/upload\<close>: every field becomes one file directly in
  \<open>uploads/\<close>, slashes of the name replaced by underscores), and their helpers
  \<open>createFileRecursive\<close> and \<open>createFolderIfNotExists\<close>.

  The state is the file-system model of \<open>OsFs\<close>, the process's working directory
  included: \<open>createFileRecursive\<close> reaches its target by \<open>os.Chdir\<close> into each
  directory in turn and restores the old directory in a deferred call. A request is its
  method and its parsed multipart form, or \<open>None\<close> when
  \<open>ParseMultipartForm\<close> fails; the form's files are the map \<open>form.File\<close>, listed
  in the order Go's map iteration happens to produce (every order is covered, since the
  theorems quantify over the list). Each field holds its parts in the order the client
  sent them, as \<open>mime/multipart\<close> keeps them. A reply is the status the handler
  writes and the body it writes. Logging is not modelled.
\<close>

datatype http_reply = Reply nat string

record multipart_form =
  form_files :: "(string \<times> bytes list) list"

record request =
  req_method :: string
  req_form :: "multipart_form option"

section \<open>createFolderIfNotExists\<close>

text \<open>\<open>os.Mkdir\<close>, with \<open>fs.ErrExist\<close> turned into success.\<close>

definition create_folder_if_not_exists :: "fs_state \<Rightarrow> string \<Rightarrow> fs_state \<times> os_error option" where
  "create_folder_if_not_exists st folder =
     (case os_mkdir st folder of
        Inr st' \<Rightarrow> (st', None)
      | Inl EEXIST \<Rightarrow> (st, None)
      | Inl e \<Rightarrow> (st, Some e))"

section \<open>createFileRecursive\<close>

text \<open>The loop over \<open>dirs[:len(dirs)-1]\<close>: create the folder, then change into it.\<close>

fun mkdir_chdir_loop :: "fs_state \<Rightarrow> string list \<Rightarrow> fs_state \<times> os_error option" where
  "mkdir_chdir_loop st [] = (st, None)"
| "mkdir_chdir_loop st (d # ds) =
     (case create_folder_if_not_exists st d of
        (st1, Some e) \<Rightarrow> (st1, Some e)
      | (st1, None) \<Rightarrow>
          (case os_chdir st1 d of
             Inl e \<Rightarrow> (st1, Some e)
           | Inr st2 \<Rightarrow> mkdir_chdir_loop st2 ds))"

text \<open>The deferred \<open>os.Chdir(olddir)\<close>; its error is dropped.\<close>

definition restore_dir :: "fs_state \<Rightarrow> string \<Rightarrow> fs_state" where
  "restore_dir st olddir = (case os_chdir st olddir of Inr st' \<Rightarrow> st' | Inl _ \<Rightarrow> st)"

text \<open>
  The result is the state after the deferred call and either the error or the file
  (\<open>None\<close> for the \<open>nil, nil\<close> return of a path whose last element is empty).
  \<open>os.Getwd\<close> does not fail in the model, so its error branch is absent.
\<close>

definition create_file_recursive ::
  "fs_state \<Rightarrow> string \<Rightarrow> fs_state \<times> (os_error + os_file option)" where
  "create_file_recursive st filepath =
     (let olddir = os_getwd st;
          dirs = split_on slash (trim_prefix (clean filepath) ''/'')
      in case mkdir_chdir_loop st (butlast dirs) of
           (st1, Some e) \<Rightarrow> (restore_dir st1 olddir, Inl e)
         | (st1, None) \<Rightarrow>
             (let filename = last dirs
              in if filename \<noteq> []
                 then (case os_create st1 filename of
                         Inl e \<Rightarrow> (restore_dir st1 olddir, Inl e)
                       | Inr (st2, f) \<Rightarrow> (restore_dir st2 olddir, Inr (Some f)))
                 else (restore_dir st1 olddir, Inr None)))"

section \<open>Copying the parts of one field\<close>

text \<open>
  \<open>for _, header := range fileheaders { io.Copy(newFile, filepart) }\<close>: each part is
  appended in order. Errors of \<open>header.Open\<close> and \<open>io.Copy\<close> are ignored by the
  code; a nil \<open>*os.File\<close> makes every copy fail with \<open>ErrInvalid\<close>, so nothing is
  written.
\<close>

fun copy_parts :: "fs_state \<Rightarrow> os_file option \<Rightarrow> bytes list \<Rightarrow> fs_state" where
  "copy_parts st f [] = st"
| "copy_parts st None (p # ps) = copy_parts st None ps"
| "copy_parts st (Some f) (p # ps) = copy_parts (file_write st f p) (Some f) ps"

section \<open>chrootHandler\<close>

definition chroot_target :: "string \<Rightarrow> string" where
  "chroot_target filename = path_join [''chroot'', clean filename]"

fun chroot_files :: "fs_state \<Rightarrow> (string \<times> bytes list) list \<Rightarrow> fs_state \<times> http_reply" where
  "chroot_files st [] = (st, Reply 200 ''Received file(s) successfully.'')"
| "chroot_files st ((filename, parts) # rest) =
     (case create_file_recursive st (chroot_target filename) of
        (st1, Inl e) \<Rightarrow> (st1, Reply 500 [])
      | (st1, Inr f) \<Rightarrow> chroot_files (copy_parts st1 f parts) rest)"

definition chroot_handler :: "fs_state \<Rightarrow> request \<Rightarrow> fs_state \<times> http_reply" where
  "chroot_handler st req =
     (if req_method req \<noteq> ''POST'' then (st, Reply 405 [])
      else
        (case req_form req of
           None \<Rightarrow> (st, Reply 400 [])
         | Some form \<Rightarrow>
             (case create_folder_if_not_exists st ''chroot'' of
                (st1, Some e) \<Rightarrow> (st1, Reply 500 [])
              | (st1, None) \<Rightarrow> chroot_files st1 (form_files form))))"

section \<open>uploadHandler\<close>

definition upload_target :: "string \<Rightarrow> string" where
  "upload_target filename = path_join [''uploads'', replace_all_char (clean filename) slash (CHR ''_'')]"

fun upload_files :: "fs_state \<Rightarrow> (string \<times> bytes list) list \<Rightarrow> fs_state \<times> http_reply" where
  "upload_files st [] = (st, Reply 200 ''Received file successfully.'')"
| "upload_files st ((filename, parts) # rest) =
     (case os_create st (upload_target filename) of
        Inl e \<Rightarrow> (st, Reply 500 [])
      | Inr (st1, f) \<Rightarrow> upload_files (copy_parts st1 (Some f) parts) rest)"

definition upload_handler :: "fs_state \<Rightarrow> request \<Rightarrow> fs_state \<times> http_reply" where
  "upload_handler st req =
     (if req_method req \<noteq> ''POST'' then (st, Reply 405 [])
      else
        (case req_form req of
           None \<Rightarrow> (st, Reply 400 [])
         | Some form \<Rightarrow>
             (case create_folder_if_not_exists st ''uploads'' of
                (st1, Some e) \<Rightarrow> (st1, Reply 500 [])
              | (st1, None) \<Rightarrow> upload_files st1 (form_files form))))"

text \<open>
  The file name \<open>uploadHandler\<close> joins to \<open>uploads\<close>, and the places a handler
  may add to the store: the directory \<open>d\<close> itself or an entry directly inside it.
\<close>

definition upload_flat :: "string \<Rightarrow> string" where
  "upload_flat filename = replace_all_char (clean filename) slash (CHR ''_'')"

definition new_keys_at :: "apath \<Rightarrow> fs_state \<Rightarrow> fs_state \<Rightarrow> bool" where
  "new_keys_at d st st' \<longleftrightarrow> (\<forall>q \<in> set (fs_keys st'). q \<notin> set (fs_keys st) \<longrightarrow> q = d \<or> butlast q = d)"

section \<open>Well-formedness and the working directory\<close>

lemma create_folder_plain:
  "plain_name s \<Longrightarrow>
   create_folder_if_not_exists st s =
     (if node_at st (cwd st @ [s]) \<noteq> None then (st, None) else (set_node st (cwd st @ [s]) Dir, None))"
  by (simp add: create_folder_if_not_exists_def os_mkdir_plain)

lemma create_folder_wf:
  "wf_fs st \<Longrightarrow> create_folder_if_not_exists st d = (st', r) \<Longrightarrow>
   wf_fs st' \<and> keeps_dirs st st' \<and> cwd st' = cwd st"
  by (auto simp: create_folder_if_not_exists_def os_mkdir_wf os_mkdir_keeps os_mkdir_cwd
      split: sum.splits os_error.splits)

lemma mkdir_chdir_loop_wf:
  "wf_fs st \<Longrightarrow> mkdir_chdir_loop st ds = (st', r) \<Longrightarrow> wf_fs st' \<and> keeps_dirs st st'"
proof (induction ds arbitrary: st)
  case Nil
  then show ?case by simp
next
  case (Cons d ds)
  obtain st1 r1 where c: "create_folder_if_not_exists st d = (st1, r1)" by fastforce
  from create_folder_wf [OF Cons.prems(1) c] have w1: "wf_fs st1" and k1: "keeps_dirs st st1"
    by simp_all
  show ?case
  proof (cases r1)
    case None
    show ?thesis
    proof (cases "os_chdir st1 d")
      case (Inl e)
      with Cons.prems c None w1 k1 show ?thesis by simp
    next
      case (Inr st2)
      with w1 have "wf_fs st2" and "keeps_dirs st1 st2" by (simp_all add: os_chdir_wf os_chdir_keeps)
      with Cons.IH [of st2] Cons.prems c None Inr k1 show ?thesis
        by (auto intro: keeps_dirs_trans)
    qed
  next
    case (Some e)
    with Cons.prems c w1 k1 show ?thesis by simp
  qed
qed

lemma restore_dir_getwd:
  "wf_fs st \<Longrightarrow> wf_fs st2 \<Longrightarrow> keeps_dirs st st2 \<Longrightarrow>
   restore_dir st2 (os_getwd st) = st2\<lparr>cwd := cwd st\<rparr> \<and> wf_fs (st2\<lparr>cwd := cwd st\<rparr>)"
proof -
  assume wf: "wf_fs st" and wf2: "wf_fs st2" and k: "keeps_dirs st st2"
  from wf have d: "node_at st (cwd st) = Some Dir" and pl: "list_all plain_name (cwd st)"
    by (simp_all add: wf_fs_def)
  with k have d2: "node_at st2 (cwd st) = Some Dir" by (simp add: keeps_dirs_def)
  show ?thesis
    using os_chdir_abs [OF wf2 d2 pl] wf_fs_cwd [OF wf2 d2 pl]
    by (simp add: restore_dir_def os_getwd_def)
qed

text \<open>
  Whatever the path, and whether the call succeeds or fails, \<open>createFileRecursive\<close>
  returns with the working directory it was called with and leaves the store well formed.
\<close>

lemma create_file_recursive_cwd_wf:
  assumes wf: "wf_fs st" and run: "create_file_recursive st path = (st', r)"
  shows "cwd st' = cwd st \<and> wf_fs st' \<and> keeps_dirs st st'"
proof -
  define dirs where "dirs = split_on slash (trim_prefix (clean path) ''/'')"
  obtain st1 r1 where loop: "mkdir_chdir_loop st (butlast dirs) = (st1, r1)" by fastforce
  from mkdir_chdir_loop_wf [OF wf loop] have w1: "wf_fs st1" and k1: "keeps_dirs st st1"
    by simp_all
  have final: "\<exists>st2. st' = restore_dir st2 (os_getwd st) \<and> wf_fs st2 \<and> keeps_dirs st st2"
  proof (cases r1)
    case (Some e)
    with run loop w1 k1 show ?thesis
      by (auto simp: create_file_recursive_def dirs_def [symmetric] Let_def)
  next
    case None
    show ?thesis
    proof (cases "last dirs \<noteq> [] \<and> (\<exists>st2 f. os_create st1 (last dirs) = Inr (st2, f))")
      case True
      then obtain st2 f where cr: "os_create st1 (last dirs) = Inr (st2, f)" by blast
      with w1 have "wf_fs st2" and "keeps_dirs st1 st2"
        by (simp_all add: os_create_wf os_create_keeps)
      with run loop None True cr k1 show ?thesis
        by (auto simp: create_file_recursive_def dirs_def [symmetric] Let_def intro: keeps_dirs_trans)
    next
      case False
      with run loop None w1 k1 show ?thesis
        by (auto simp: create_file_recursive_def dirs_def [symmetric] Let_def
            split: sum.splits if_splits intro!: exI [of _ st1])
    qed
  qed
  with restore_dir_getwd [OF wf] show ?thesis by auto
qed

section \<open>Containment below chroot/\<close>

lemma plain_name_chroot [simp]: "plain_name ''chroot''"
  by (simp add: plain_name_def)

lemma plain_name_uploads [simp]: "plain_name ''uploads''"
  by (simp add: plain_name_def)

text \<open>With plain names, no link below \<open>pre\<close>, and the first directory below \<open>pre\<close>,
  the loop changes nothing outside \<open>pre\<close> and, when it succeeds, ends in the last
  directory of the list.\<close>

lemma mkdir_chdir_loop_contained:
  "wf_fs st \<Longrightarrow> no_links_under st pre \<Longrightarrow> list_all plain_name ds \<Longrightarrow>
   (ds \<noteq> [] \<Longrightarrow> prefix pre (cwd st @ [hd ds])) \<Longrightarrow> mkdir_chdir_loop st ds = (st', r) \<Longrightarrow>
   unchanged_outside pre st st' \<and> no_links_under st' pre \<and> (r = None \<longrightarrow> cwd st' = cwd st @ ds)"
proof (induction ds arbitrary: st)
  case Nil
  then show ?case by simp
next
  case (Cons d ds)
  from Cons.prems(3) have pd: "plain_name d" and pds: "list_all plain_name ds" by simp_all
  from Cons.prems(4) have pre: "prefix pre (cwd st @ [d])" by simp
  define st1 where "st1 = (if node_at st (cwd st @ [d]) \<noteq> None then st else set_node st (cwd st @ [d]) Dir)"
  have c: "create_folder_if_not_exists st d = (st1, None)"
    using pd by (simp add: create_folder_plain st1_def)
  have u1: "unchanged_outside pre st st1" and l1: "no_links_under st1 pre" and cw1: "cwd st1 = cwd st"
    using pre Cons.prems(2) by (auto simp: st1_def unchanged_outside_set_node no_links_under_set_node is_link_def)
  have w1: "wf_fs st1" using create_folder_wf [OF Cons.prems(1) c] by simp
  have nl: "\<not> is_link (node_at st1 (cwd st1 @ [d]))"
    using l1 pre cw1 by (simp add: no_links_under_iff)
  show ?case
  proof (cases "node_at st1 (cwd st1 @ [d]) = Some Dir")
    case True
    let ?st2 = "st1\<lparr>cwd := cwd st @ [d]\<rparr>"
    have ch: "os_chdir st1 d = Inr ?st2"
      using os_chdir_plain [OF pd nl] True cw1 by simp
    then have w2: "wf_fs ?st2" using os_chdir_wf [OF w1] by blast
    have hd2: "ds \<noteq> [] \<Longrightarrow> prefix pre (cwd ?st2 @ [hd ds])"
      using prefix_prefix [OF pre, of "[hd ds]"] by simp
    from Cons.prems(5) c ch have loop: "mkdir_chdir_loop ?st2 ds = (st', r)" by simp
    from Cons.IH [OF w2 _ pds hd2 loop] l1 have
      "unchanged_outside pre ?st2 st' \<and> no_links_under st' pre \<and> (r = None \<longrightarrow> cwd st' = cwd ?st2 @ ds)"
      by simp
    with u1 show ?thesis
      by (auto simp: unchanged_outside_iff)
  next
    case False
    then have "\<exists>e. os_chdir st1 d = Inl e"
      using os_chdir_plain [OF pd nl] by (auto split: option.splits node.splits)
    with Cons.prems(5) c u1 l1 show ?thesis by auto
  qed
qed

lemma list_all_plain_clean_elems: "\<not> escapes f \<Longrightarrow> list_all plain_name (clean_elems f)"
  using clean_elems_rooted [of f] normal_segs_no_dotdot_head [OF clean_elems_normal [of f]]
  by (auto simp: escapes_def)

text \<open>The directory list \<open>createFileRecursive\<close> computes for \<open>Join("chroot", Clean(f))\<close>.\<close>

lemma chroot_target_dirs:
  "\<not> escapes f \<Longrightarrow>
   split_on slash (trim_prefix (clean (chroot_target f)) ''/'') = ''chroot'' # clean_elems f"
proof -
  assume ne: "\<not> escapes f"
  have "chroot_target f = clean (''chroot'' @ slash # clean f)"
    by (simp add: chroot_target_def path_join_two)
  then have "clean (chroot_target f) = chroot_target f" by (simp add: clean_clean)
  moreover have "\<not> is_rooted (chroot_target f)"
    by (simp add: chroot_target_def is_rooted_join_clean)
  ultimately show ?thesis
    using ne split_on_join_clean [of "''chroot''" f]
    by (simp add: trim_prefix_not_rooted chroot_target_def)
qed

lemma restore_dir_entries [simp]: "fs_entries (restore_dir st d) = fs_entries st"
  by (auto simp: restore_dir_def os_chdir_def split: sum.splits option.splits node.splits)

lemma unchanged_outside_restore [simp]:
  "unchanged_outside pre st (restore_dir st' d) = unchanged_outside pre st st'"
  by (simp add: unchanged_outside_def node_at_def fs_keys_def)

lemma no_links_under_restore [simp]: "no_links_under (restore_dir st d) pre = no_links_under st pre"
  by (simp add: no_links_under_def node_at_def fs_keys_def)

text \<open>
  \<open>createFileRecursive\<close> of a path that splits into plain names, the first of which
  lies below a prefix \<open>pre\<close> with no link under it: nothing outside \<open>pre\<close> changes,
  and a file it returns is at the working directory followed by those names.
\<close>

lemma create_file_recursive_below:
  assumes wf: "wf_fs st" and nl: "no_links_under st pre"
    and dd: "split_on slash (trim_prefix (clean path) ''/'') = dirs"
    and pl: "list_all plain_name dirs" and dne: "dirs \<noteq> []" and hdp: "prefix pre (cwd st @ [hd dirs])"
    and run: "create_file_recursive st path = (st', r)"
  shows "unchanged_outside pre st st' \<and> no_links_under st' pre \<and>
         (\<forall>h. r = Inr (Some h) \<longrightarrow> f_path h = cwd st @ dirs)"
proof -
  have pbl: "list_all plain_name (butlast dirs)" and plast: "plain_name (last dirs)"
    using pl dne by (simp_all add: list_all_iff in_set_butlastD)
  have hd: "butlast dirs \<noteq> [] \<Longrightarrow> prefix pre (cwd st @ [hd (butlast dirs)])"
    using hdp by (cases dirs) auto
  have ppre: "prefix pre (cwd st @ dirs)"
    using hdp dne by (cases dirs) (auto elim: prefix_order.trans)
  obtain st1 r1 where loop: "mkdir_chdir_loop st (butlast dirs) = (st1, r1)" by fastforce
  from mkdir_chdir_loop_contained [OF wf nl pbl hd loop] have
    u1: "unchanged_outside pre st st1" and l1: "no_links_under st1 pre"
    and c1: "r1 = None \<Longrightarrow> cwd st1 = cwd st @ butlast dirs" by blast+
  show ?thesis
  proof (cases r1)
    case (Some e)
    with run loop u1 l1 show ?thesis
      by (auto simp: create_file_recursive_def dd Let_def)
  next
    case None
    have at: "cwd st1 @ [last dirs] = cwd st @ dirs"
      using c1 [OF None] dne by simp
    have nlk: "\<not> is_link (node_at st1 (cwd st1 @ [last dirs]))"
      using l1 ppre at by (simp add: no_links_under_iff)
    have fne: "last dirs \<noteq> []" using plast by (simp add: plain_name_def)
    show ?thesis
    proof (cases "node_at st1 (cwd st @ dirs) = Some Dir")
      case True
      with os_create_plain [OF plast nlk] at have "\<exists>e. os_create st1 (last dirs) = Inl e" by simp
      with run loop None fne u1 l1 show ?thesis
        by (auto simp: create_file_recursive_def dd Let_def)
    next
      case False
      let ?st2 = "set_node st1 (cwd st @ dirs) (File [])"
      have cr: "os_create st1 (last dirs) = Inr (?st2, \<lparr>f_name = last dirs, f_path = cwd st @ dirs\<rparr>)"
        using os_create_plain [OF plast nlk] at False by simp
      have "unchanged_outside pre st1 ?st2"
        using unchanged_outside_set_node [OF ppre] dne by simp
      with u1 have u2: "unchanged_outside pre st ?st2" by (rule unchanged_outside_trans)
      have l2: "no_links_under ?st2 pre"
        using l1 dne by (simp add: no_links_under_set_node is_link_def)
      from run loop None fne cr u2 l2 show ?thesis
        by (auto simp: create_file_recursive_def dd Let_def)
    qed
  qed
qed

lemma create_file_recursive_contained:
  assumes wf: "wf_fs st" and nl: "no_links_under st (cwd st @ [''chroot''])" and ne: "\<not> escapes f"
    and run: "create_file_recursive st (chroot_target f) = (st', r)"
  shows "unchanged_outside (cwd st @ [''chroot'']) st st' \<and> no_links_under st' (cwd st @ [''chroot'']) \<and>
         (\<forall>h. r = Inr (Some h) \<longrightarrow> f_path h = cwd st @ ''chroot'' # clean_elems f)"
  using create_file_recursive_below [OF wf nl chroot_target_dirs [OF ne] _ _ _ run]
    list_all_plain_clean_elems [OF ne] by simp

text \<open>
  The directory list for a name that climbs out of \<open>chroot\<close> by one \<open>..\<close>: the
  join drops \<open>chroot\<close> together with that \<open>..\<close>.
\<close>

lemma chroot_target_dirs_escape:
  "escapes f \<Longrightarrow> tl (clean_elems f) \<noteq> [] \<Longrightarrow>
   split_on slash (trim_prefix (clean (chroot_target f)) ''/'') = tl (clean_elems f)"
proof -
  assume e: "escapes f" and ne: "tl (clean_elems f) \<noteq> []"
  have "chroot_target f = clean (''chroot'' @ slash # clean f)"
    by (simp add: chroot_target_def path_join_two)
  then have "clean (chroot_target f) = chroot_target f" by (simp add: clean_clean)
  moreover have "\<not> is_rooted (chroot_target f)"
    by (simp add: chroot_target_def is_rooted_join_clean)
  ultimately show ?thesis
    using e ne split_on_join_clean [of "''chroot''" f]
    by (simp add: trim_prefix_not_rooted chroot_target_def)
qed

section \<open>Copying parts\<close>

lemma copy_parts_content:
  "node_at st (f_path h) = Some (File c) \<Longrightarrow>
   node_at (copy_parts st (Some h) ps) (f_path h) = Some (File (c @ concat ps))"
proof (induction ps arbitrary: st c)
  case Nil
  then show ?case by simp
next
  case (Cons p ps)
  from Cons.prems have ne: "f_path h \<noteq> []" by auto
  with Cons.prems have "node_at (file_write st h p) (f_path h) = Some (File (c @ p))"
    by (simp add: file_write_def node_at_set_node)
  from Cons.IH [OF this] show ?case by simp
qed

lemma copy_parts_other:
  "q \<noteq> f_path h \<Longrightarrow> node_at (copy_parts st (Some h) ps) q = node_at st q"
proof (induction ps arbitrary: st)
  case (Cons p ps)
  have "node_at (file_write st h p) q = node_at st q"
    using Cons.prems
    by (cases "f_path h = []")
       (auto simp: file_write_def node_at_set_node node_at_set_node_Nil split: option.splits node.splits)
  with Cons show ?case by simp
qed simp

lemma copy_parts_cwd [simp]: "cwd (copy_parts st f ps) = cwd st"
  by (induction st f ps rule: copy_parts.induct) (auto simp: file_write_def split: option.splits node.splits)

lemma copy_parts_wf: "wf_fs st \<Longrightarrow> wf_fs (copy_parts st f ps)"
  by (induction st f ps rule: copy_parts.induct) (simp_all add: file_write_wf)

lemma copy_parts_frame:
  assumes pre: "\<forall>h. f = Some h \<longrightarrow> prefix pre (f_path h)"
  shows "unchanged_outside pre st (copy_parts st f ps)"
proof (cases f)
  case None
  then show ?thesis by (induction ps) simp_all
next
  case (Some h)
  with pre have "prefix pre (f_path h)" by simp
  then show ?thesis
    using Some copy_parts_other [of _ h st ps] by (auto simp: unchanged_outside_iff)
qed

lemma copy_parts_links:
  "no_links_under st pre \<Longrightarrow> no_links_under (copy_parts st f ps) pre"
proof (induction st f ps rule: copy_parts.induct)
  case (3 st f p ps)
  have "no_links_under (file_write st f p) pre"
    using file_write_cases [of st f p]
  proof
    assume "\<exists>c. node_at st (f_path f) = Some (File c) \<and> f_path f \<noteq> [] \<and>
              file_write st f p = set_node st (f_path f) (File (c @ p))"
    with "3.prems" show ?thesis by (auto simp: no_links_under_set_node is_link_def)
  qed (use "3.prems" in simp)
  with "3.IH" show ?case by simp
qed simp_all

section \<open>The chroot handler\<close>

lemma chroot_files_contained:
  "wf_fs st \<Longrightarrow> no_links_under st (cwd st @ [''chroot'']) \<Longrightarrow> list_all (\<lambda>(n, _). \<not> escapes n) files \<Longrightarrow>
   chroot_files st files = (st', rep) \<Longrightarrow>
   unchanged_outside (cwd st @ [''chroot'']) st st' \<and> cwd st' = cwd st \<and> wf_fs st' \<and>
   no_links_under st' (cwd st @ [''chroot''])"
proof (induction st files rule: chroot_files.induct)
  case (1 st)
  then show ?case by simp
next
  case (2 st filename parts rest)
  let ?pre = "cwd st @ [''chroot'']"
  obtain st1 r where cr: "create_file_recursive st (chroot_target filename) = (st1, r)" by fastforce
  from "2.prems"(3) have ne: "\<not> escapes filename" and rest: "list_all (\<lambda>(n, _). \<not> escapes n) rest"
    by simp_all
  from create_file_recursive_contained [OF "2.prems"(1,2) ne cr] have
    u1: "unchanged_outside ?pre st st1" and l1: "no_links_under st1 ?pre"
    and loc: "\<forall>h. r = Inr (Some h) \<longrightarrow> f_path h = cwd st @ ''chroot'' # clean_elems filename"
    by blast+
  from create_file_recursive_cwd_wf [OF "2.prems"(1) cr] have c1: "cwd st1 = cwd st" and w1: "wf_fs st1"
    by simp_all
  show ?case
  proof (cases r)
    case (Inl e)
    with "2.prems"(4) cr u1 c1 w1 l1 show ?thesis by simp
  next
    case (Inr f)
    let ?st2 = "copy_parts st1 f parts"
    have "\<forall>h. f = Some h \<longrightarrow> prefix ?pre (f_path h)" using loc Inr by simp
    then have u2: "unchanged_outside ?pre st ?st2"
      using unchanged_outside_trans [OF u1 copy_parts_frame] by blast
    have l2: "no_links_under ?st2 ?pre" using copy_parts_links [OF l1] .
    have w2: "wf_fs ?st2" using copy_parts_wf [OF w1] .
    have c2: "cwd ?st2 = cwd st" using c1 by simp
    from "2.prems"(4) cr Inr have run: "chroot_files ?st2 rest = (st', rep)" by simp
    from "2.IH" [OF cr [symmetric] Inr w2] l2 c2 rest run have
      "unchanged_outside ?pre ?st2 st' \<and> cwd st' = cwd st \<and> wf_fs st' \<and> no_links_under st' ?pre"
      by simp
    with u2 show ?thesis using unchanged_outside_trans by blast
  qed
qed

lemma chroot_target_not_rooted: "\<not> is_rooted (chroot_target f)"
  by (simp add: chroot_target_def is_rooted_join_clean)

lemma clean_chroot_target: "clean (chroot_target f) = chroot_target f"
  by (simp add: chroot_target_def path_join_two clean_clean)

lemma chroot_target_last: "last (split_on slash (trim_prefix (clean (chroot_target f)) ''/'')) \<noteq> []"
proof -
  let ?t = "chroot_target f"
  have "split_on slash (trim_prefix (clean ?t) ''/'') = split_on slash (clean ?t)"
    using chroot_target_not_rooted [of f] by (simp add: clean_chroot_target trim_prefix_not_rooted)
  also have "\<dots> = (if clean_elems ?t = [] then [''.''] else clean_elems ?t)"
    using chroot_target_not_rooted [of f] by (simp add: split_on_clean)
  finally show ?thesis
    using normal_segs_elems [OF clean_elems_normal [of ?t], of "last (clean_elems ?t)"]
    by auto
qed

lemma create_folder_contained:
  assumes pd: "plain_name d" and wf: "wf_fs st" and nl: "no_links_under st (cwd st @ [d])"
    and c: "create_folder_if_not_exists st d = (st1, r)"
  shows "r = None \<and> unchanged_outside (cwd st @ [d]) st st1 \<and> new_keys_at (cwd st @ [d]) st st1 \<and>
         no_links_under st1 (cwd st @ [d]) \<and> cwd st1 = cwd st \<and> wf_fs st1"
proof -
  have "r = None \<and> unchanged_outside (cwd st @ [d]) st st1 \<and> new_keys_at (cwd st @ [d]) st st1 \<and>
        no_links_under st1 (cwd st @ [d])"
    using c nl create_folder_plain [OF pd, of st]
    by (auto simp: unchanged_outside_set_node no_links_under_set_node is_link_def new_keys_at_def
        fs_keys_set_node split: if_splits)
  with create_folder_wf [OF wf c] show ?thesis by simp
qed

lemma node_at_restore [simp]: "node_at (restore_dir st d) = node_at st"
  by (simp add: fun_eq_iff node_at_def)

lemma os_create_file:
  "os_create st name = Inr (st', h) \<Longrightarrow> node_at st' (f_path h) = Some (File [])"
  by (cases "f_path h = []")
     (auto simp: os_create_def node_at_set_node split: sum.splits if_splits option.splits node.splits)

lemma create_file_recursive_file:
  "create_file_recursive st path = (st', Inr (Some h)) \<Longrightarrow> node_at st' (f_path h) = Some (File [])"
  by (auto simp: create_file_recursive_def Let_def os_create_file
      split: prod.splits option.splits if_splits sum.splits)

lemma create_file_recursive_last:
  "last (split_on slash (trim_prefix (clean path) ''/'')) \<noteq> [] \<Longrightarrow>
   snd (create_file_recursive st path) \<noteq> Inr None"
  by (auto simp: create_file_recursive_def Let_def split: prod.splits option.splits sum.splits)

lemma copy_parts_keeps: "keeps_dirs st (copy_parts st f ps)"
  by (induction st f ps rule: copy_parts.induct) (auto intro: keeps_dirs_trans [OF file_write_keeps])

lemma chroot_files_cwd_wf:
  "wf_fs st \<Longrightarrow> chroot_files st files = (st', rep) \<Longrightarrow> cwd st' = cwd st \<and> wf_fs st' \<and> keeps_dirs st st'"
proof (induction st files rule: chroot_files.induct)
  case (2 st filename parts rest)
  obtain st1 r where cr: "create_file_recursive st (chroot_target filename) = (st1, r)" by fastforce
  from create_file_recursive_cwd_wf [OF "2.prems"(1) cr] have c1: "cwd st1 = cwd st" and w1: "wf_fs st1"
    and k1: "keeps_dirs st st1" by simp_all
  show ?case
  proof (cases r)
    case (Inl e)
    with "2.prems"(2) cr c1 w1 k1 show ?thesis by simp
  next
    case (Inr f)
    with "2.prems"(2) cr have "chroot_files (copy_parts st1 f parts) rest = (st', rep)" by simp
    with "2.IH" [OF cr [symmetric] Inr copy_parts_wf [OF w1]] c1 k1 copy_parts_keeps [of st1 f parts]
    show ?thesis by (auto intro: keeps_dirs_trans)
  qed
qed simp

text \<open>
  Every request leaves the store well formed, every directory in place and the
  working directory where it was.
\<close>

lemma chroot_handler_wf_keeps:
  assumes wf: "wf_fs st" and run: "chroot_handler st req = (st', rep)"
  shows "cwd st' = cwd st \<and> wf_fs st' \<and> keeps_dirs st st'"
proof (cases "req_method req \<noteq> ''POST'' \<or> req_form req = None")
  case True
  with run wf show ?thesis by (auto simp: chroot_handler_def split: if_splits)
next
  case False
  then obtain form where post: "req_method req = ''POST''" and fm: "req_form req = Some form" by auto
  obtain st1 r where c: "create_folder_if_not_exists st ''chroot'' = (st1, r)" by fastforce
  from create_folder_wf [OF wf c] have w1: "wf_fs st1" and c1: "cwd st1 = cwd st" and k1: "keeps_dirs st st1"
    by simp_all
  show ?thesis
  proof (cases r)
    case None
    with run post fm c have "chroot_files st1 (form_files form) = (st', rep)"
      by (simp add: chroot_handler_def)
    from chroot_files_cwd_wf [OF w1 this] c1 k1 show ?thesis by (auto intro: keeps_dirs_trans)
  next
    case (Some e)
    with run post fm c w1 c1 k1 show ?thesis by (simp add: chroot_handler_def)
  qed
qed

lemma upload_files_wf_keeps:
  "wf_fs st \<Longrightarrow> upload_files st files = (st', rep) \<Longrightarrow> cwd st' = cwd st \<and> wf_fs st' \<and> keeps_dirs st st'"
proof (induction st files rule: upload_files.induct)
  case (2 st filename parts rest)
  show ?case
  proof (cases "os_create st (upload_target filename)")
    case (Inl e)
    with "2.prems" show ?thesis by simp
  next
    case (Inr x)
    obtain st1 h where x: "x = (st1, h)" by (cases x)
    with Inr have cr: "os_create st (upload_target filename) = Inr (st1, h)" by simp
    have w2: "wf_fs (copy_parts st1 (Some h) parts)" using copy_parts_wf [OF os_create_wf [OF "2.prems"(1) cr]] .
    from "2.prems"(2) cr have run: "upload_files (copy_parts st1 (Some h) parts) rest = (st', rep)" by simp
    from "2.IH" [OF Inr x [symmetric] w2 run] os_create_cwd [OF cr] os_create_keeps [OF cr]
      copy_parts_keeps [of st1 "Some h" parts]
    show ?thesis by (auto intro: keeps_dirs_trans)
  qed
qed simp

lemma upload_handler_wf_keeps:
  "wf_fs st \<Longrightarrow> upload_handler st req = (st', rep) \<Longrightarrow> cwd st' = cwd st \<and> wf_fs st' \<and> keeps_dirs st st'"
proof -
  assume wf: "wf_fs st" and run: "upload_handler st req = (st', rep)"
  show ?thesis
  proof (cases "req_method req \<noteq> ''POST'' \<or> req_form req = None")
    case True
    with run wf show ?thesis by (auto simp: upload_handler_def split: if_splits)
  next
    case False
    then obtain form where post: "req_method req = ''POST''" and fm: "req_form req = Some form" by auto
    obtain st1 r where c: "create_folder_if_not_exists st ''uploads'' = (st1, r)" by fastforce
    from create_folder_wf [OF wf c] have w1: "wf_fs st1" and c1: "cwd st1 = cwd st" and k1: "keeps_dirs st st1"
      by simp_all
    show ?thesis
    proof (cases r)
      case None
      with run post fm c have "upload_files st1 (form_files form) = (st', rep)"
        by (simp add: upload_handler_def)
      from upload_files_wf_keeps [OF w1 this] c1 k1 show ?thesis by (auto intro: keeps_dirs_trans)
    next
      case (Some e)
      with run post fm c w1 c1 k1 show ?thesis by (simp add: upload_handler_def)
    qed
  qed
qed

lemmas upload_defs = create_folder_if_not_exists_def create_file_recursive_def restore_dir_def
  chroot_target_def chroot_handler_def upload_target_def upload_handler_def

section \<open>The upload handler\<close>

lemma upload_flat_facts: "slash \<notin> set (upload_flat f) \<and> upload_flat f \<noteq> []"
  using clean_not_Nil [of f] by (auto simp: upload_flat_def replace_all_char_def)

lemma upload_flat_plain:
  "upload_flat f \<noteq> ''.'' \<Longrightarrow> upload_flat f \<noteq> ''..'' \<Longrightarrow> plain_name (upload_flat f)"
  using upload_flat_facts [of f] by (simp add: plain_name_def)

text \<open>\<open>uploadHandler\<close>'s target is \<open>uploads/NAME\<close> for a plain \<open>NAME\<close>, except for
  the names that clean to \<open>.\<close> and \<open>..\<close>.\<close>

lemma upload_target_eq:
  "upload_target f =
     (if upload_flat f = ''.'' then ''uploads''
      else if upload_flat f = ''..'' then ''.''
      else ''uploads'' @ slash # upload_flat f)"
proof -
  let ?x = "upload_flat f"
  have t: "upload_target f = clean (''uploads'' @ slash # ?x)"
    by (simp add: upload_target_def upload_flat_def path_join_two)
  have sp: "split_on slash (''uploads'' @ slash # ?x) = [''uploads'', ?x]"
    using upload_flat_facts [of f] by (simp add: split_on_plain_sep split_on_no_sep_eq)
  have nr: "\<not> is_rooted (''uploads'' @ slash # ?x)" by (simp add: is_rooted_def)
  have ce: "clean_elems (''uploads'' @ slash # ?x) = rev (clean_step False [''uploads''] ?x)"
    by (simp only: clean_elems_def nr sp clean_segs_def foldl_Cons foldl_Nil
        clean_step_plain [OF plain_name_uploads] if_False)
  have c: "clean (''uploads'' @ slash # ?x) =
      (if clean_elems (''uploads'' @ slash # ?x) = [] then ''.''
       else join_with slash (clean_elems (''uploads'' @ slash # ?x)))"
    by (simp only: clean_eq [of "''uploads'' @ slash # ?x"] nr if_False)
  show ?thesis
  proof (cases "?x = ''.'' \<or> ?x = ''..''")
    case True
    then show ?thesis
      using t c ce by (auto simp: clean_step_skip clean_step_dotdot_pop)
  next
    case False
    then have "plain_name ?x" using upload_flat_plain by blast
    with t c ce False show ?thesis by simp
  qed
qed

lemma os_create_dot: "wf_fs st \<Longrightarrow> \<exists>e. os_create st ''.'' = Inl e"
  by (auto simp: os_create_def resolve_def walk_simps is_rooted_def wf_fs_def)

lemma os_create_uploads_path:
  assumes pa: "plain_name a" and px: "plain_name x"
    and nl: "\<not> is_link (node_at st (cwd st @ [a]))" "\<not> is_link (node_at st (cwd st @ [a, x]))"
    and cr: "os_create st (a @ slash # x) = Inr (st', h)"
  shows "f_path h = cwd st @ [a, x] \<and> st' = set_node st (cwd st @ [a, x]) (File [])"
proof -
  have "resolve st True (a @ slash # x) = walk st max_symlinks True (cwd st) [a, x]"
    using pa px by (simp add: resolve_def plain_name_sep_not_rooted split_on_plain_sep plain_name_facts)
  moreover have "walk st max_symlinks True (cwd st) [a, x] =
      (case node_at st (cwd st @ [a]) of
         Some Dir \<Rightarrow> Inr (cwd st @ [a, x])
       | None \<Rightarrow> Inl ENOENT
       | Some _ \<Rightarrow> Inl ENOTDIR)"
    using pa px nl walk_plain [OF px, of True st "cwd st @ [a]"]
    by (auto simp: walk_simps plain_name_def is_link_def split: option.splits node.splits)
  ultimately show ?thesis
    using cr px
    by (auto simp: os_create_def plain_name_facts plain_name_no_suffix has_suffix_def
        split: option.splits node.splits if_splits)
qed

lemma os_create_upload_target:
  assumes wf: "wf_fs st" and nl: "no_links_under st (cwd st @ [''uploads''])"
    and cr: "os_create st (upload_target f) = Inr (st1, h)"
  shows "(f_path h = cwd st @ [''uploads''] \<or> f_path h = cwd st @ [''uploads'', upload_flat f]) \<and>
         st1 = set_node st (f_path h) (File [])"
proof -
  have nl1: "\<not> is_link (node_at st (cwd st @ [''uploads'']))"
    using nl by (simp add: no_links_under_iff)
  consider "upload_flat f = ''.''" | "upload_flat f = ''..''" | "plain_name (upload_flat f)"
    using upload_flat_plain by blast
  then show ?thesis
  proof cases
    case 1
    with cr os_create_plain [OF plain_name_uploads nl1] show ?thesis
      by (auto simp: upload_target_eq split: if_splits)
  next
    case 2
    with cr os_create_dot [OF wf] show ?thesis by (simp add: upload_target_eq)
  next
    case 3
    have "\<not> is_link (node_at st (cwd st @ [''uploads'', upload_flat f]))"
      using nl by (simp add: no_links_under_iff)
    with os_create_uploads_path [OF plain_name_uploads 3 nl1] cr 3 show ?thesis
      by (auto simp: upload_target_eq plain_name_def)
  qed
qed

lemma copy_parts_keys: "set (fs_keys (copy_parts st f ps)) = set (fs_keys st)"
proof (induction st f ps rule: copy_parts.induct)
  case (3 st f p ps)
  have "set (fs_keys (file_write st f p)) = set (fs_keys st)"
    using file_write_cases [of st f p] node_at_key [of "f_path f" st]
    by (auto simp: fs_keys_set_node)
  with "3.IH" show ?case by simp
qed simp_all

lemma new_keys_at_trans: "new_keys_at d st st' \<Longrightarrow> new_keys_at d st' st'' \<Longrightarrow> new_keys_at d st st''"
  by (auto simp: new_keys_at_def)

lemma upload_files_contained:
  "wf_fs st \<Longrightarrow> no_links_under st (cwd st @ [''uploads'']) \<Longrightarrow> upload_files st files = (st', rep) \<Longrightarrow>
   unchanged_outside (cwd st @ [''uploads'']) st st' \<and> new_keys_at (cwd st @ [''uploads'']) st st' \<and>
   cwd st' = cwd st \<and> wf_fs st' \<and> no_links_under st' (cwd st @ [''uploads''])"
proof (induction st files rule: upload_files.induct)
  case (1 st)
  then show ?case by (simp add: new_keys_at_def)
next
  case (2 st filename parts rest)
  let ?pre = "cwd st @ [''uploads'']"
  show ?case
  proof (cases "os_create st (upload_target filename)")
    case (Inl e)
    with "2.prems" show ?thesis by (simp add: new_keys_at_def)
  next
    case (Inr r)
    obtain st1 h where rr: "r = (st1, h)" by (cases r)
    with Inr have cr: "os_create st (upload_target filename) = Inr (st1, h)" by simp
    from os_create_upload_target [OF "2.prems"(1,2) cr] have
      loc: "f_path h = ?pre \<or> f_path h = ?pre @ [upload_flat filename]"
      and st1: "st1 = set_node st (f_path h) (File [])" by auto
    have pre: "prefix ?pre (f_path h)" and ne: "f_path h \<noteq> []" using loc by auto
    have w1: "wf_fs st1" using os_create_wf [OF "2.prems"(1) cr] .
    have c1: "cwd st1 = cwd st" using os_create_cwd [OF cr] .
    let ?st2 = "copy_parts st1 (Some h) parts"
    have u2: "unchanged_outside ?pre st ?st2"
    proof -
      have "unchanged_outside ?pre st st1" using st1 unchanged_outside_set_node [OF pre ne] by simp
      moreover have "unchanged_outside ?pre st1 ?st2" using pre by (simp add: copy_parts_frame)
      ultimately show ?thesis by (rule unchanged_outside_trans)
    qed
    have k2: "new_keys_at ?pre st ?st2"
      using loc st1 by (auto simp: new_keys_at_def copy_parts_keys fs_keys_set_node butlast_append)
    have l2: "no_links_under ?st2 ?pre"
      using copy_parts_links no_links_under_set_node [OF "2.prems"(2) _ ne] st1 by (simp add: is_link_def)
    have w2: "wf_fs ?st2" using copy_parts_wf [OF w1] .
    from "2.prems"(3) cr have run: "upload_files ?st2 rest = (st', rep)" by simp
    from "2.IH" [OF Inr rr [symmetric] w2 _ run] l2 c1 have
      "unchanged_outside ?pre ?st2 st' \<and> new_keys_at ?pre ?st2 st' \<and> cwd st' = cwd st \<and> wf_fs st' \<and>
       no_links_under st' ?pre"
      by simp
    with u2 k2 show ?thesis using unchanged_outside_trans new_keys_at_trans by blast
  qed
qed

section \<open>The directory loop on plain names\<close>

text \<open>
  On a path of plain names whose levels are absent or directories, the loop of
  \<open>createFileRecursive\<close> succeeds, leaves every level a directory and the working
  directory at the last one, and changes no other node.
\<close>

lemma mkdir_chdir_loop_plain:
  "wf_fs st \<Longrightarrow> list_all plain_name ds \<Longrightarrow>
   (\<forall>k. 0 < k \<longrightarrow> k \<le> length ds \<longrightarrow>
      node_at st (cwd st @ take k ds) = None \<or> node_at st (cwd st @ take k ds) = Some Dir) \<Longrightarrow>
   \<exists>st'. mkdir_chdir_loop st ds = (st', None) \<and> wf_fs st' \<and> cwd st' = cwd st @ ds \<and>
     (\<forall>k. 0 < k \<longrightarrow> k \<le> length ds \<longrightarrow> node_at st' (cwd st @ take k ds) = Some Dir) \<and>
     (\<forall>q. (\<forall>k. 0 < k \<longrightarrow> k \<le> length ds \<longrightarrow> q \<noteq> cwd st @ take k ds) \<longrightarrow> node_at st' q = node_at st q)"
proof (induction ds arbitrary: st)
  case Nil
  then show ?case by simp
next
  case (Cons d ds)
  let ?c = "cwd st @ [d]"
  from Cons.prems(2) have pd: "plain_name d" and pds: "list_all plain_name ds" by simp_all
  have o1: "node_at st ?c = None \<or> node_at st ?c = Some Dir"
    using Cons.prems(3) [rule_format, of 1] by simp
  define st1 where "st1 = (if node_at st ?c \<noteq> None then st else set_node st ?c Dir)"
  have cf: "create_folder_if_not_exists st d = (st1, None)"
    using create_folder_plain [OF pd, of st] by (simp add: st1_def)
  from create_folder_wf [OF Cons.prems(1) cf] have w1: "wf_fs st1" and c1: "cwd st1 = cwd st" by simp_all
  have n1: "node_at st1 q = (if q = ?c then Some Dir else node_at st q)" for q
    using o1 by (auto simp: st1_def node_at_set_node)
  let ?st2 = "st1\<lparr>cwd := ?c\<rparr>"
  have ch: "os_chdir st1 d = Inr ?st2"
    using os_chdir_plain [OF pd, of st1] n1 [of ?c] c1 by (simp add: is_link_def)
  have w2: "wf_fs ?st2" using os_chdir_wf [OF w1 ch] .
  have len: "?c @ take k ds \<noteq> ?c" if "0 < k" "k \<le> length ds" for k
    using that by (cases ds) auto
  have o2: "\<forall>k. 0 < k \<longrightarrow> k \<le> length ds \<longrightarrow>
      node_at ?st2 (cwd ?st2 @ take k ds) = None \<or> node_at ?st2 (cwd ?st2 @ take k ds) = Some Dir"
  proof (intro allI impI)
    fix k assume k: "0 < k" "k \<le> length ds"
    have "node_at st (cwd st @ take (Suc k) (d # ds)) = None \<or> node_at st (cwd st @ take (Suc k) (d # ds)) = Some Dir"
      using Cons.prems(3) [rule_format, of "Suc k"] k by simp
    then show "node_at ?st2 (cwd ?st2 @ take k ds) = None \<or> node_at ?st2 (cwd ?st2 @ take k ds) = Some Dir"
      using n1 len [OF k] by simp
  qed
  obtain st' where l: "mkdir_chdir_loop ?st2 ds = (st', None)" and w': "wf_fs st'" and c': "cwd st' = ?c @ ds"
    and d': "\<forall>k. 0 < k \<longrightarrow> k \<le> length ds \<longrightarrow> node_at st' (?c @ take k ds) = Some Dir"
    and f': "\<forall>q. (\<forall>k. 0 < k \<longrightarrow> k \<le> length ds \<longrightarrow> q \<noteq> ?c @ take k ds) \<longrightarrow> node_at st' q = node_at ?st2 q"
    using Cons.IH [OF w2 pds o2] by auto
  have run: "mkdir_chdir_loop st (d # ds) = (st', None)" using cf ch l by simp
  have fc: "node_at st' ?c = Some Dir" using f' [rule_format, of ?c] len n1 [of ?c] by auto
  have dirs: "node_at st' (cwd st @ take k (d # ds)) = Some Dir" if "0 < k" "k \<le> length (d # ds)" for k
  proof (cases k)
    case (Suc j)
    with that d' fc show ?thesis by (cases j) auto
  qed (use that in simp)
  have frame: "node_at st' q = node_at st q"
    if q: "\<forall>k. 0 < k \<longrightarrow> k \<le> length (d # ds) \<longrightarrow> q \<noteq> cwd st @ take k (d # ds)" for q
  proof -
    have qc: "q \<noteq> ?c" using q [rule_format, of 1] by simp
    have "\<forall>k. 0 < k \<longrightarrow> k \<le> length ds \<longrightarrow> q \<noteq> ?c @ take k ds"
    proof (intro allI impI)
      fix k assume "0 < k" "k \<le> length ds"
      then show "q \<noteq> ?c @ take k ds" using q [rule_format, of "Suc k"] by simp
    qed
    with f' qc n1 [of q] show ?thesis by simp
  qed
  show ?case using run w' c' dirs frame by auto
qed

section \<open>The two handlers keep to their directories\<close>

lemma chroot_handler_frame:
  assumes wf: "wf_fs st" and nl: "no_links_under st (cwd st @ [''chroot''])"
    and names: "\<forall>form. req_form req = Some form \<longrightarrow> list_all (\<lambda>(n, _). \<not> escapes n) (form_files form)"
    and run: "chroot_handler st req = (st', rep)"
  shows "unchanged_outside (cwd st @ [''chroot'']) st st' \<and> cwd st' = cwd st \<and> wf_fs st' \<and>
         no_links_under st' (cwd st @ [''chroot''])"
proof (cases "req_method req \<noteq> ''POST'' \<or> req_form req = None")
  case True
  with run wf nl show ?thesis by (auto simp: chroot_handler_def split: if_splits)
next
  case False
  then obtain form where post: "req_method req = ''POST''" and fm: "req_form req = Some form" by auto
  obtain st1 r where c: "create_folder_if_not_exists st ''chroot'' = (st1, r)" by fastforce
  from create_folder_contained [OF plain_name_chroot wf nl c] have
    r: "r = None" and u1: "unchanged_outside (cwd st @ [''chroot'']) st st1"
    and l1: "no_links_under st1 (cwd st @ [''chroot''])" and c1: "cwd st1 = cwd st" and w1: "wf_fs st1"
    by blast+
  from run post fm c r have files: "chroot_files st1 (form_files form) = (st', rep)"
    by (simp add: chroot_handler_def)
  from chroot_files_contained [OF w1 _ _ files] l1 c1 names fm have
    "unchanged_outside (cwd st @ [''chroot'']) st1 st' \<and> cwd st' = cwd st \<and> wf_fs st' \<and>
     no_links_under st' (cwd st @ [''chroot''])"
    by simp
  with u1 show ?thesis using unchanged_outside_trans by blast
qed

lemma upload_handler_frame:
  assumes wf: "wf_fs st" and nl: "no_links_under st (cwd st @ [''uploads''])"
    and run: "upload_handler st req = (st', rep)"
  shows "unchanged_outside (cwd st @ [''uploads'']) st st' \<and> new_keys_at (cwd st @ [''uploads'']) st st' \<and>
         cwd st' = cwd st \<and> wf_fs st' \<and> no_links_under st' (cwd st @ [''uploads''])"
proof (cases "req_method req \<noteq> ''POST'' \<or> req_form req = None")
  case True
  with run wf nl show ?thesis by (auto simp: upload_handler_def new_keys_at_def split: if_splits)
next
  case False
  then obtain form where post: "req_method req = ''POST''" and fm: "req_form req = Some form" by auto
  obtain st1 r where c: "create_folder_if_not_exists st ''uploads'' = (st1, r)" by fastforce
  from create_folder_contained [OF plain_name_uploads wf nl c] have
    r: "r = None" and u1: "unchanged_outside (cwd st @ [''uploads'']) st st1"
    and k1: "new_keys_at (cwd st @ [''uploads'']) st st1"
    and l1: "no_links_under st1 (cwd st @ [''uploads''])" and c1: "cwd st1 = cwd st" and w1: "wf_fs st1"
    by blast+
  from run post fm c r have files: "upload_files st1 (form_files form) = (st', rep)"
    by (simp add: upload_handler_def)
  from upload_files_contained [OF w1 _ files] l1 c1 have
    "unchanged_outside (cwd st @ [''uploads'']) st1 st' \<and> new_keys_at (cwd st @ [''uploads'']) st1 st' \<and>
     cwd st' = cwd st \<and> wf_fs st' \<and> no_links_under st' (cwd st @ [''uploads''])"
    by simp
  with u1 k1 show ?thesis using unchanged_outside_trans new_keys_at_trans by blast
qed

section \<open>Properties of the upload handlers\<close>

text \<open>
  C1. Containment of \<open>chrootHandler\<close>: when no field name climbs out of its
  directory (\<open>escapes\<close>: the cleaned name is relative and begins with \<open>..\<close>) and
  no symbolic link lies below \<open>chroot/\<close>, a request changes no node outside
  \<open>chroot/\<close> of the working directory, leaves the working directory where it was,
  and keeps the store well formed.
\<close>

theorem chroot_handler_contained:
  assumes wf: "wf_fs st" and nl: "no_links_under st (cwd st @ [''chroot''])"
    and names: "\<forall>form. req_form req = Some form \<longrightarrow> list_all (\<lambda>(n, _). \<not> escapes n) (form_files form)"
    and run: "chroot_handler st req = (st', rep)"
  shows "unchanged_outside (cwd st @ [''chroot'']) st st' \<and> cwd st' = cwd st \<and> wf_fs st'"
  using chroot_handler_frame [OF wf nl names run] by blast

theorem chroot_handler_contained_witness:
  "wf_fs \<lparr>fs_entries = [([''srv''], Dir)], cwd = [''srv'']\<rparr> \<and>
   no_links_under \<lparr>fs_entries = [([''srv''], Dir)], cwd = [''srv'']\<rparr> [''srv'', ''chroot''] \<and>
   chroot_handler \<lparr>fs_entries = [([''srv''], Dir)], cwd = [''srv'']\<rparr>
     \<lparr>req_method = ''POST'', req_form = Some \<lparr>form_files = [(''a/b'', [[1, 2]])]\<rparr>\<rparr> =
     (\<lparr>fs_entries = [([''srv''], Dir), ([''srv'', ''chroot''], Dir), ([''srv'', ''chroot'', ''a''], Dir),
        ([''srv'', ''chroot'', ''a'', ''b''], File [1, 2])], cwd = [''srv'']\<rparr>,
      Reply 200 ''Received file(s) successfully.'') \<and>
   unchanged_outside [''srv'', ''chroot''] \<lparr>fs_entries = [([''srv''], Dir)], cwd = [''srv'']\<rparr>
     \<lparr>fs_entries = [([''srv''], Dir), ([''srv'', ''chroot''], Dir), ([''srv'', ''chroot'', ''a''], Dir),
        ([''srv'', ''chroot'', ''a'', ''b''], File [1, 2])], cwd = [''srv'']\<rparr>"
proof -
  let ?st = "\<lparr>fs_entries = [([''srv''], Dir)], cwd = [''srv'']\<rparr>"
  let ?req = "\<lparr>req_method = ''POST'', req_form = Some \<lparr>form_files = [(''a/b'', [[1, 2 :: byte]])]\<rparr>\<rparr>"
  let ?st' = "\<lparr>fs_entries = [([''srv''], Dir), ([''srv'', ''chroot''], Dir), ([''srv'', ''chroot'', ''a''], Dir),
        ([''srv'', ''chroot'', ''a'', ''b''], File [1, 2])], cwd = [''srv'']\<rparr>"
  have wf: "wf_fs ?st" by (simp add: fs_simps go_simps)
  have nl: "no_links_under ?st (cwd ?st @ [''chroot''])" by (simp add: fs_simps)
  have names: "\<forall>form. req_form ?req = Some form \<longrightarrow> list_all (\<lambda>(n, _). \<not> escapes n) (form_files form)"
    by (simp add: go_simps split_on_no_sep_eq)
  have run: "chroot_handler ?st ?req = (?st', Reply 200 ''Received file(s) successfully.'')"
    by (simp add: upload_defs fs_simps go_simps Let_def)
  from chroot_handler_contained [OF wf nl names run] wf nl run show ?thesis by simp
qed

text \<open>
  C2. The containment of C1 fails for every name that climbs out: when the cleaned
  field name is relative and begins with one \<open>..\<close> followed by plain names
  \<open>ns\<close> (such as \<open>../evil\<close> or \<open>../etc/x\<close>), the join with \<open>chroot\<close> cancels
  against that \<open>..\<close>, and a request that succeeds stores the field's content at
  \<open>ns\<close> in the working directory itself, outside \<open>chroot/\<close>.
\<close>

theorem chroot_handler_escape:
  assumes wf: "wf_fs st" and esc: "escapes name"
    and pl: "list_all plain_name (tl (clean_elems name))" and ne: "tl (clean_elems name) \<noteq> []"
    and nc: "hd (tl (clean_elems name)) \<noteq> ''chroot''"
    and nl: "no_links_under st (cwd st @ [hd (tl (clean_elems name))])"
    and run: "chroot_handler st \<lparr>req_method = ''POST'', req_form = Some \<lparr>form_files = [(name, parts)]\<rparr>\<rparr> =
              (st', Reply 200 body)"
  shows "node_at st' (cwd st @ tl (clean_elems name)) = Some (File (concat parts)) \<and>
         \<not> prefix (cwd st @ [''chroot'']) (cwd st @ tl (clean_elems name))"
proof -
  let ?ns = "tl (clean_elems name)"
  let ?pre = "cwd st @ [hd ?ns]"
  define st1 where "st1 = (if node_at st (cwd st @ [''chroot'']) \<noteq> None then st
                           else set_node st (cwd st @ [''chroot'']) Dir)"
  have c: "create_folder_if_not_exists st ''chroot'' = (st1, None)"
    using create_folder_plain [OF plain_name_chroot, of st] by (simp add: st1_def)
  from create_folder_wf [OF wf c] have w1: "wf_fs st1" and c1: "cwd st1 = cwd st" by simp_all
  have l1: "no_links_under st1 ?pre"
    using nl by (simp add: st1_def no_links_under_set_node is_link_def)
  obtain st2 r2 where cr: "create_file_recursive st1 (chroot_target name) = (st2, r2)" by fastforce
  from run c have files: "chroot_files st1 [(name, parts)] = (st', Reply 200 body)"
    by (simp add: chroot_handler_def)
  then obtain f where r2: "r2 = Inr f" and st': "st' = copy_parts st2 f parts"
    using cr by (cases r2) auto
  have "snd (create_file_recursive st1 (chroot_target name)) \<noteq> Inr None"
    by (rule create_file_recursive_last [OF chroot_target_last])
  with cr r2 obtain h where h: "f = Some h" by (cases f) auto
  have hp: "prefix ?pre (cwd st1 @ [hd ?ns])" using c1 by simp
  from create_file_recursive_below [OF w1 l1 chroot_target_dirs_escape [OF esc ne] pl ne hp cr] r2 h c1
  have at: "f_path h = cwd st @ ?ns" by simp
  from create_file_recursive_file cr r2 h have "node_at st2 (f_path h) = Some (File [])" by simp
  from copy_parts_content [OF this, of parts] st' h at
  have "node_at st' (cwd st @ ?ns) = Some (File (concat parts))" by simp
  moreover have "\<not> prefix (cwd st @ [''chroot'']) (cwd st @ ?ns)"
    using ne nc by (cases ?ns) auto
  ultimately show ?thesis ..
qed

theorem chroot_handler_escape_witness:
  "wf_fs \<lparr>fs_entries = [([''srv''], Dir)], cwd = [''srv'']\<rparr> \<and> escapes ''../evil'' \<and>
   list_all plain_name (tl (clean_elems ''../evil'')) \<and> tl (clean_elems ''../evil'') \<noteq> [] \<and>
   hd (tl (clean_elems ''../evil'')) \<noteq> ''chroot'' \<and>
   no_links_under \<lparr>fs_entries = [([''srv''], Dir)], cwd = [''srv'']\<rparr> [''srv'', ''evil''] \<and>
   chroot_handler \<lparr>fs_entries = [([''srv''], Dir)], cwd = [''srv'']\<rparr>
     \<lparr>req_method = ''POST'', req_form = Some \<lparr>form_files = [(''../evil'', [[0x41], [0x42]])]\<rparr>\<rparr> =
   (\<lparr>fs_entries = [([''srv''], Dir), ([''srv'', ''chroot''], Dir), ([''srv'', ''evil''], File [0x41, 0x42])],
      cwd = [''srv'']\<rparr>, Reply 200 ''Received file(s) successfully.'') \<and>
   node_at \<lparr>fs_entries = [([''srv''], Dir), ([''srv'', ''chroot''], Dir), ([''srv'', ''evil''], File [0x41, 0x42])],
      cwd = [''srv'']\<rparr> [''srv'', ''evil''] = Some (File [0x41, 0x42])"
proof -
  let ?st = "\<lparr>fs_entries = [([''srv''], Dir)], cwd = [''srv'']\<rparr>"
  let ?st' = "\<lparr>fs_entries = [([''srv''], Dir), ([''srv'', ''chroot''], Dir), ([''srv'', ''evil''], File [0x41, 0x42 :: byte])],
      cwd = [''srv'']\<rparr>"
  have wf: "wf_fs ?st" by (simp add: fs_simps go_simps)
  have ce: "clean_elems ''../evil'' = [''..'', ''evil'']" by (simp add: go_simps)
  have esc: "escapes ''../evil''" by (simp add: go_simps)
  have pl: "list_all plain_name (tl (clean_elems ''../evil''))" by (simp add: ce go_simps)
  have ne: "tl (clean_elems ''../evil'') \<noteq> []" by (simp add: ce)
  have nc: "hd (tl (clean_elems ''../evil'')) \<noteq> ''chroot''" by (simp add: ce)
  have nl: "no_links_under ?st (cwd ?st @ [hd (tl (clean_elems ''../evil''))])" by (simp add: ce fs_simps)
  have run: "chroot_handler ?st \<lparr>req_method = ''POST'', req_form = Some \<lparr>form_files = [(''../evil'', [[0x41], [0x42]])]\<rparr>\<rparr>
      = (?st', Reply 200 ''Received file(s) successfully.'')"
    by (simp add: upload_defs fs_simps go_simps Let_def)
  from chroot_handler_escape [OF wf esc pl ne nc nl run] have
    "node_at ?st' (cwd ?st @ tl (clean_elems ''../evil'')) = Some (File (concat [[0x41], [0x42]]))" by simp
  with wf esc pl ne nc nl run ce show ?thesis by simp
qed

text \<open>
  C3. Ordered concatenation: when \<open>chrootHandler\<close> answers 200 to a form with one
  field whose name does not climb out, the file it creates below \<open>chroot/\<close> holds the
  field's parts concatenated in the order they were sent.
\<close>

theorem chroot_handler_concat:
  assumes wf: "wf_fs st" and nl: "no_links_under st (cwd st @ [''chroot''])" and ne: "\<not> escapes name"
    and run: "chroot_handler st \<lparr>req_method = ''POST'', req_form = Some \<lparr>form_files = [(name, parts)]\<rparr>\<rparr> =
              (st', Reply 200 body)"
  shows "node_at st' (cwd st @ ''chroot'' # clean_elems name) = Some (File (concat parts))"
proof -
  obtain st1 r where c: "create_folder_if_not_exists st ''chroot'' = (st1, r)" by fastforce
  from create_folder_contained [OF plain_name_chroot wf nl c] have r: "r = None" and l1: "no_links_under st1 (cwd st @ [''chroot''])"
    and c1: "cwd st1 = cwd st" and w1: "wf_fs st1" by blast+
  obtain st2 r2 where cr: "create_file_recursive st1 (chroot_target name) = (st2, r2)" by fastforce
  from run c r have files: "chroot_files st1 [(name, parts)] = (st', Reply 200 body)"
    by (simp add: chroot_handler_def)
  then obtain f where r2: "r2 = Inr f" and st': "st' = copy_parts st2 f parts"
    using cr by (cases r2) auto
  have "snd (create_file_recursive st1 (chroot_target name)) \<noteq> Inr None"
    by (rule create_file_recursive_last [OF chroot_target_last])
  with cr r2 obtain h where h: "f = Some h" by (cases f) auto
  from create_file_recursive_contained [OF w1 _ ne cr] l1 c1 r2 h
  have at: "f_path h = cwd st @ ''chroot'' # clean_elems name" by simp
  from create_file_recursive_file cr r2 h have "node_at st2 (f_path h) = Some (File [])" by simp
  from copy_parts_content [OF this, of parts] st' h at show ?thesis by simp
qed

theorem chroot_handler_concat_witness:
  "wf_fs \<lparr>fs_entries = [], cwd = []\<rparr> \<and> no_links_under \<lparr>fs_entries = [], cwd = []\<rparr> [''chroot''] \<and>
   \<not> escapes ''x.txt'' \<and>
   chroot_handler \<lparr>fs_entries = [], cwd = []\<rparr>
     \<lparr>req_method = ''POST'', req_form = Some \<lparr>form_files = [(''x.txt'', [[0x61, 0x62], [0x63, 0x64], [0x65, 0x66]])]\<rparr>\<rparr> =
     (\<lparr>fs_entries = [([''chroot''], Dir), ([''chroot'', ''x.txt''], File [0x61, 0x62, 0x63, 0x64, 0x65, 0x66])],
        cwd = []\<rparr>, Reply 200 ''Received file(s) successfully.'') \<and>
   node_at \<lparr>fs_entries = [([''chroot''], Dir), ([''chroot'', ''x.txt''], File [0x61, 0x62, 0x63, 0x64, 0x65, 0x66])],
        cwd = []\<rparr> [''chroot'', ''x.txt''] = Some (File (concat [[0x61, 0x62], [0x63, 0x64], [0x65, 0x66]]))"
proof -
  let ?st = "\<lparr>fs_entries = [], cwd = []\<rparr>"
  let ?parts = "[[0x61, 0x62], [0x63, 0x64], [0x65, 0x66 :: byte]]"
  let ?st' = "\<lparr>fs_entries = [([''chroot''], Dir), ([''chroot'', ''x.txt''], File [0x61, 0x62, 0x63, 0x64, 0x65, 0x66])],
        cwd = []\<rparr>"
  have wf: "wf_fs ?st" by (simp add: fs_simps)
  have nl: "no_links_under ?st (cwd ?st @ [''chroot''])" by (simp add: fs_simps)
  have ne: "\<not> escapes ''x.txt''" by (simp add: go_simps)
  have run: "chroot_handler ?st \<lparr>req_method = ''POST'', req_form = Some \<lparr>form_files = [(''x.txt'', ?parts)]\<rparr>\<rparr> =
      (?st', Reply 200 ''Received file(s) successfully.'')"
    by (simp add: upload_defs fs_simps go_simps Let_def)
  from chroot_handler_concat [OF wf nl ne run] have
    "node_at ?st' (cwd ?st @ ''chroot'' # clean_elems ''x.txt'') = Some (File (concat ?parts))" .
  moreover have "clean_elems ''x.txt'' = [''x.txt'']" by (simp add: go_simps)
  ultimately show ?thesis using wf nl ne run by simp
qed

text \<open>
  C4. Whatever the request (names that climb out, links below \<open>chroot/\<close>, failing
  calls), \<open>chrootHandler\<close> returns with the process's working directory unchanged and
  the store well formed: every \<open>os.Chdir\<close> of \<open>createFileRecursive\<close> is undone by
  its deferred call.
\<close>

theorem chroot_handler_restores_cwd:
  assumes wf: "wf_fs st" and run: "chroot_handler st req = (st', rep)"
  shows "cwd st' = cwd st \<and> wf_fs st'"
  using chroot_handler_wf_keeps [OF wf run] by simp

theorem chroot_handler_restores_cwd_witness:
  "wf_fs \<lparr>fs_entries = [([''srv''], Dir)], cwd = [''srv'']\<rparr> \<and>
   chroot_handler \<lparr>fs_entries = [([''srv''], Dir)], cwd = [''srv'']\<rparr>
     \<lparr>req_method = ''POST'', req_form = Some \<lparr>form_files = [(''../../evil'', [[0x41]])]\<rparr>\<rparr> =
   (\<lparr>fs_entries = [([''srv''], Dir), ([''srv'', ''chroot''], Dir), ([''evil''], File [0x41])],
      cwd = [''srv'']\<rparr>, Reply 200 ''Received file(s) successfully.'') \<and>
   cwd \<lparr>fs_entries = [([''srv''], Dir), ([''srv'', ''chroot''], Dir), ([''evil''], File [0x41])],
      cwd = [''srv'']\<rparr> = [''srv'']"
proof -
  let ?st = "\<lparr>fs_entries = [([''srv''], Dir)], cwd = [''srv'']\<rparr>"
  let ?st' = "\<lparr>fs_entries = [([''srv''], Dir), ([''srv'', ''chroot''], Dir), ([''evil''], File [0x41 :: byte])],
      cwd = [''srv'']\<rparr>"
  have wf: "wf_fs ?st" by (simp add: fs_simps go_simps)
  have run: "chroot_handler ?st \<lparr>req_method = ''POST'', req_form = Some \<lparr>form_files = [(''../../evil'', [[0x41]])]\<rparr>\<rparr>
      = (?st', Reply 200 ''Received file(s) successfully.'')"
    by (simp add: upload_defs fs_simps go_simps Let_def)
  from chroot_handler_restores_cwd [OF wf run] wf run show ?thesis by simp
qed

text \<open>
  C5. The directory-only branch of \<open>createFileRecursive\<close> (a path whose last
  element is empty, documented to create directories and no file) is never taken from
  \<open>chrootHandler\<close>: \<open>path.Clean\<close> has removed every trailing slash before the
  path is split, so each field either fails or yields a file.
\<close>

theorem chroot_no_directory_only:
  "snd (create_file_recursive st (chroot_target name)) \<noteq> Inr None"
  by (rule create_file_recursive_last [OF chroot_target_last])

text \<open>
  C6. Containment of \<open>uploadHandler\<close>, for every field name: when no symbolic link
  lies below \<open>uploads/\<close>, a request changes no node outside \<open>uploads/\<close> of the
  working directory, the only entries it adds are \<open>uploads\<close> itself and files directly
  inside it (never a subdirectory), and it keeps the working directory and the
  well-formedness of the store. The name is cleaned and its slashes replaced before the
  join, so unlike \<open>chrootHandler\<close> it cannot climb out.
\<close>

theorem upload_handler_contained:
  assumes wf: "wf_fs st" and nl: "no_links_under st (cwd st @ [''uploads''])"
    and run: "upload_handler st req = (st', rep)"
  shows "unchanged_outside (cwd st @ [''uploads'']) st st' \<and> new_keys_at (cwd st @ [''uploads'']) st st' \<and>
         cwd st' = cwd st \<and> wf_fs st'"
  using upload_handler_frame [OF wf nl run] by blast

theorem upload_handler_contained_witness:
  "wf_fs \<lparr>fs_entries = [([''srv''], Dir)], cwd = [''srv'']\<rparr> \<and>
   no_links_under \<lparr>fs_entries = [([''srv''], Dir)], cwd = [''srv'']\<rparr> [''srv'', ''uploads''] \<and>
   upload_handler \<lparr>fs_entries = [([''srv''], Dir)], cwd = [''srv'']\<rparr>
     \<lparr>req_method = ''POST'', req_form = Some \<lparr>form_files = [(''../x/y'', [[7]])]\<rparr>\<rparr> =
     (\<lparr>fs_entries = [([''srv''], Dir), ([''srv'', ''uploads''], Dir), ([''srv'', ''uploads'', ''.._x_y''], File [7])],
       cwd = [''srv'']\<rparr>, Reply 200 ''Received file successfully.'') \<and>
   new_keys_at [''srv'', ''uploads''] \<lparr>fs_entries = [([''srv''], Dir)], cwd = [''srv'']\<rparr>
     \<lparr>fs_entries = [([''srv''], Dir), ([''srv'', ''uploads''], Dir), ([''srv'', ''uploads'', ''.._x_y''], File [7])],
       cwd = [''srv'']\<rparr>"
proof -
  let ?st = "\<lparr>fs_entries = [([''srv''], Dir)], cwd = [''srv'']\<rparr>"
  let ?req = "\<lparr>req_method = ''POST'', req_form = Some \<lparr>form_files = [(''../x/y'', [[7 :: byte]])]\<rparr>\<rparr>"
  let ?st' = "\<lparr>fs_entries = [([''srv''], Dir), ([''srv'', ''uploads''], Dir), ([''srv'', ''uploads'', ''.._x_y''], File [7])],
       cwd = [''srv'']\<rparr>"
  have wf: "wf_fs ?st" by (simp add: fs_simps go_simps)
  have nl: "no_links_under ?st (cwd ?st @ [''uploads''])" by (simp add: fs_simps)
  have run: "upload_handler ?st ?req = (?st', Reply 200 ''Received file successfully.'')"
    by (simp add: upload_defs fs_simps go_simps Let_def)
  from upload_handler_contained [OF wf nl run] wf nl run show ?thesis by simp
qed

text \<open>
  C14. Store, then look up: after \<open>createFileRecursive\<close> has created the file for a
  field name that does not climb out, opening the same joined path finds that file.
\<close>

theorem chroot_store_then_open:
  assumes wf: "wf_fs st" and nl: "no_links_under st (cwd st @ [''chroot''])" and ne: "\<not> escapes f"
    and run: "create_file_recursive st (chroot_target f) = (st', Inr (Some h))"
  shows "os_open st' (chroot_target f) = Inr \<lparr>f_name = chroot_target f, f_path = f_path h\<rparr>"
proof -
  let ?ns = "''chroot'' # clean_elems f"
  from create_file_recursive_contained [OF wf nl ne run] have fp: "f_path h = cwd st @ ?ns" by simp
  from create_file_recursive_cwd_wf [OF wf run] have c': "cwd st' = cwd st" and w': "wf_fs st'" by simp_all
  from create_file_recursive_file [OF run] fp have fl: "node_at st' (cwd st @ ?ns) = Some (File [])" by simp
  have pl: "list_all plain_name ?ns" using list_all_plain_clean_elems [OF ne] by simp
  have sp: "split_on slash (chroot_target f) = ?ns" and nr: "\<not> is_rooted (chroot_target f)"
    using split_on_join_clean [OF plain_name_chroot, of f] is_rooted_join_clean [OF plain_name_chroot, of f] ne
    by (simp_all add: chroot_target_def)
  have nemp: "chroot_target f \<noteq> []" using sp by auto
  obtain ys x where ys: "?ns = ys @ [x]" by (cases ?ns rule: rev_cases) auto
  with pl have pys: "list_all plain_name ys" and px: "plain_name x" by simp_all
  from wf_fs_parent [OF w', of "cwd st @ ?ns"] fl ys have dys: "node_at st' (cwd st @ ys) = Some Dir"
    by (simp add: butlast_append)
  have "walk st' max_symlinks True (cwd st) (ys @ [x]) = walk st' max_symlinks True (cwd st @ ys) [x]"
    using walk_real_append [OF w' dys pys] .
  also have "\<dots> = Inr (cwd st @ ys @ [x])" using fl ys px by (simp add: walk_simps plain_name_def)
  finally show ?thesis
    using fl ys fp nemp nr sp c' by (simp add: os_open_def resolve_def)
qed

theorem chroot_store_then_open_witness:
  "wf_fs \<lparr>fs_entries = [([''srv''], Dir), ([''srv'', ''chroot''], Dir)], cwd = [''srv'']\<rparr> \<and>
   no_links_under \<lparr>fs_entries = [([''srv''], Dir), ([''srv'', ''chroot''], Dir)], cwd = [''srv'']\<rparr> [''srv'', ''chroot''] \<and>
   \<not> escapes ''a/b'' \<and>
   create_file_recursive \<lparr>fs_entries = [([''srv''], Dir), ([''srv'', ''chroot''], Dir)], cwd = [''srv'']\<rparr>
     (chroot_target ''a/b'') =
     (\<lparr>fs_entries = [([''srv''], Dir), ([''srv'', ''chroot''], Dir), ([''srv'', ''chroot'', ''a''], Dir),
        ([''srv'', ''chroot'', ''a'', ''b''], File [])], cwd = [''srv'']\<rparr>,
      Inr (Some \<lparr>f_name = ''b'', f_path = [''srv'', ''chroot'', ''a'', ''b'']\<rparr>)) \<and>
   os_open \<lparr>fs_entries = [([''srv''], Dir), ([''srv'', ''chroot''], Dir), ([''srv'', ''chroot'', ''a''], Dir),
        ([''srv'', ''chroot'', ''a'', ''b''], File [])], cwd = [''srv'']\<rparr> (chroot_target ''a/b'') =
     Inr \<lparr>f_name = chroot_target ''a/b'', f_path = [''srv'', ''chroot'', ''a'', ''b'']\<rparr>"
proof -
  let ?st = "\<lparr>fs_entries = [([''srv''], Dir), ([''srv'', ''chroot''], Dir)], cwd = [''srv'']\<rparr>"
  have wf: "wf_fs ?st" by (simp add: fs_simps go_simps)
  have nl: "no_links_under ?st (cwd ?st @ [''chroot''])" by (simp add: fs_simps)
  have ne: "\<not> escapes ''a/b''" by (simp add: go_simps split_on_no_sep_eq)
  have run: "create_file_recursive ?st (chroot_target ''a/b'') =
     (\<lparr>fs_entries = [([''srv''], Dir), ([''srv'', ''chroot''], Dir), ([''srv'', ''chroot'', ''a''], Dir),
        ([''srv'', ''chroot'', ''a'', ''b''], File [])], cwd = [''srv'']\<rparr>,
      Inr (Some \<lparr>f_name = ''b'', f_path = [''srv'', ''chroot'', ''a'', ''b'']\<rparr>))"
    by (simp add: upload_defs fs_simps go_simps Let_def)
  from chroot_store_then_open [OF wf nl ne run] wf nl ne run show ?thesis by simp
qed

end
