(* ===== verification/Kit.thy ===== *)
theory Kit
  imports OsFs "HOL-Library.Monad_Syntax"
begin

text \<open>
  The kit server of \<open>src/cmd/redkit/main.go\<close>: \<open>serveFiles\<close> answers
  \<open>GET /kit/NAME\<close> with the zip archive of \<open>KITS/NAME/bin\<close>, built by
  \<open>zipDirFull\<close>, which walks the tree with \<open>fs.WalkDir\<close> over \<open>os.DirFS\<close> and
  passes every entry through \<open>followIfSymlink\<close>.

  File modes are Go's \<open>fs.FileMode\<close>, a 32-bit word with \<open>ModeDir\<close> at bit 31 and
  \<open>ModeSymlink\<close> at bit 27. A call of the \<open>results\<close> package's \<open>Unwrap\<close> or
  \<open>Check\<close> on an error panics; a panic is the value \<open>Inl e\<close> of the error that
  caused it, after the deferred calls on the way have run. A computation that does not
  return is \<open>None\<close>: \<open>followIfSymlink\<close> is a \<open>partial_function\<close> in the option
  monad, and the tree walk recurses on a depth budget (\<open>walk_fuel\<close>), larger than the
  depth of any path of the store. The archive is the list of its entries (name and
  content) in the order they are created; the zip byte format is not modelled.
\<close>

unbundle bit_operations_syntax

section \<open>File modes\<close>

type_synonym file_mode = "32 word"

definition mode_dir :: file_mode where
  "mode_dir = 2 ^ 31"

definition mode_symlink :: file_mode where
  "mode_symlink = 2 ^ 27"

text \<open>
  The mode and size \<open>Stat\<close> reports for a node. Permission bits are not modelled
  (they are 0); a directory reports the block size of its listing, 4096 on the usual
  Linux file systems.
\<close>

definition node_mode :: "node \<Rightarrow> file_mode" where
  "node_mode n = (case n of Dir \<Rightarrow> mode_dir | File _ \<Rightarrow> 0 | Symlink _ \<Rightarrow> mode_symlink)"

definition node_size :: "node \<Rightarrow> int" where
  "node_size n = (case n of Dir \<Rightarrow> 4096 | File c \<Rightarrow> int (length c) | Symlink t \<Rightarrow> int (length t))"

definition mode_is_dir :: "file_mode \<Rightarrow> bool" where
  "mode_is_dir m \<longleftrightarrow> m AND mode_dir \<noteq> 0"

definition node_bytes :: "node \<Rightarrow> bytes" where
  "node_bytes n = (case n of File c \<Rightarrow> c | _ \<Rightarrow> [])"

section \<open>followIfSymlink\<close>

text \<open>The deferred \<open>os.Chdir(olddir)\<close>: its error is dropped.\<close>

definition defer_chdir :: "fs_state \<Rightarrow> string \<Rightarrow> fs_state" where
  "defer_chdir st d = (case os_chdir st d of Inl _ \<Rightarrow> st | Inr st' \<Rightarrow> st')"

partial_function (option) follow_if_symlink ::
  "fs_state \<Rightarrow> os_file \<Rightarrow> (fs_state \<times> (os_error + os_file)) option" where
  "follow_if_symlink st f =
     (case file_stat st f of
        Inl e \<Rightarrow> Some (st, Inl e)
      | Inr n \<Rightarrow>
          (if node_mode n AND mode_symlink \<noteq> 1 then Some (st, Inr f)
           else
             (let olddir = os_getwd st in
              case file_chdir st f of
                Inl e \<Rightarrow> Some (defer_chdir st olddir, Inl e)
              | Inr st1 \<Rightarrow>
                  (case os_readlink st1 (f_name f) of
                     Inl e \<Rightarrow> Some (defer_chdir st1 olddir, Inl e)
                   | Inr t \<Rightarrow>
                       (case os_open st1 t of
                          Inl e \<Rightarrow> Some (defer_chdir st1 olddir, Inl e)
                        | Inr g \<Rightarrow>
                            do { (st2, r) \<leftarrow> follow_if_symlink st1 g;
                                 Some (defer_chdir st2 olddir, r) })))))"

declare follow_if_symlink.simps [code]

section \<open>zipDirFull\<close>

type_synonym zip_entry = "string \<times> bytes"

text \<open>\<open>os.DirFS(base)\<close> opens \<open>name\<close> as \<open>base + "/" + name\<close>.\<close>

definition dirfs_name :: "string \<Rightarrow> string \<Rightarrow> string" where
  "dirfs_name base name = base @ slash # name"

text \<open>
  The callback \<open>zipDirFull\<close> passes to \<open>fs.WalkDir\<close>, for an entry with a
  \<open>DirEntry\<close> (its first branch, \<open>d == nil\<close>, is the root's failed \<open>Stat\<close>, in
  \<open>walk_dir_root\<close>): open \<open>path.Join(basePath, filePath)\<close>, follow it, stat it,
  and archive it under \<open>filePath\<close> unless it is empty or a directory.
\<close>

definition zip_visit ::
  "fs_state \<Rightarrow> string \<Rightarrow> string \<Rightarrow> (fs_state \<times> (os_error + zip_entry option)) option" where
  "zip_visit st base rel =
     (case os_open st (path_join [base, rel]) of
        Inl e \<Rightarrow> Some (st, Inl e)
      | Inr f0 \<Rightarrow>
          do { (st1, r) \<leftarrow> follow_if_symlink st f0;
               Some (st1,
                 (case r of
                    Inl e \<Rightarrow> Inl e
                  | Inr fil \<Rightarrow>
                      (case file_stat st1 fil of
                         Inl e \<Rightarrow> Inl e
                       | Inr n \<Rightarrow>
                           Inr (if node_size n < 1 \<or> mode_is_dir (node_mode n) then None
                                else Some (rel, node_bytes n))))) })"

text \<open>
  \<open>fs.WalkDir\<close>'s \<open>walkDir\<close> (\<open>walk_dir\<close>) and its loop over the entries of a
  directory (\<open>walk_entries\<close>): visit the entry; for a directory, read its entries
  in name order and walk each under \<open>path.Join(name, d.Name())\<close>. When
  \<open>ReadDir\<close> fails the callback is called a second time with the error, which this
  callback ignores. The callback never returns an error, so the walk stops only by a
  panic. The archive built so far is threaded as \<open>acc\<close>.
\<close>

fun walk_dir ::
  "nat \<Rightarrow> fs_state \<Rightarrow> string \<Rightarrow> string \<Rightarrow> bool \<Rightarrow> zip_entry list \<Rightarrow>
   (fs_state \<times> (os_error + zip_entry list)) option"
and walk_entries ::
  "nat \<Rightarrow> fs_state \<Rightarrow> string \<Rightarrow> string \<Rightarrow> (fname \<times> bool) list \<Rightarrow> zip_entry list \<Rightarrow>
   (fs_state \<times> (os_error + zip_entry list)) option" where
  "walk_dir 0 st base name isdir acc = None"
| "walk_dir (Suc n) st base name isdir acc =
     (case zip_visit st base name of
        None \<Rightarrow> None
      | Some (st1, Inl e) \<Rightarrow> Some (st1, Inl e)
      | Some (st1, Inr ent) \<Rightarrow>
          (let acc1 = acc @ (case ent of None \<Rightarrow> [] | Some x \<Rightarrow> [x]) in
           if \<not> isdir then Some (st1, Inr acc1)
           else
             (case os_read_dir st1 (dirfs_name base name) of
                Inr ds \<Rightarrow> walk_entries n st1 base name ds acc1
              | Inl _ \<Rightarrow>
                  (case zip_visit st1 base name of
                     None \<Rightarrow> None
                   | Some (st2, Inl e) \<Rightarrow> Some (st2, Inl e)
                   | Some (st2, Inr ent2) \<Rightarrow>
                       Some (st2, Inr (acc1 @ (case ent2 of None \<Rightarrow> [] | Some x \<Rightarrow> [x])))))))"
| "walk_entries n st base name [] acc = Some (st, Inr acc)"
| "walk_entries n st base name ((d, isd) # ds) acc =
     (case walk_dir n st base (path_join [name, d]) isd acc of
        None \<Rightarrow> None
      | Some (st1, Inl e) \<Rightarrow> Some (st1, Inl e)
      | Some (st1, Inr acc1) \<Rightarrow> walk_entries n st1 base name ds acc1)"

text \<open>
  \<open>fs.WalkDir(fsys, ".", fn)\<close>: stat the root; on failure the callback returns the
  error (\<open>d == nil\<close>) and \<open>Check\<close> panics with it.
\<close>

definition walk_fuel :: "fs_state \<Rightarrow> nat" where
  "walk_fuel st = Suc (foldr max (map length (fs_keys st)) 0)"

definition walk_dir_root :: "nat \<Rightarrow> fs_state \<Rightarrow> string \<Rightarrow> (fs_state \<times> (os_error + zip_entry list)) option" where
  "walk_dir_root fuel st base =
     (case os_stat st (dirfs_name base ''.'') of
        Inl e \<Rightarrow> Some (st, Inl e)
      | Inr n \<Rightarrow> walk_dir fuel st base ''.'' (mode_is_dir (node_mode n)) [])"

definition zip_dir_full :: "fs_state \<Rightarrow> string \<Rightarrow> (fs_state \<times> (os_error + zip_entry list)) option" where
  "zip_dir_full st base = walk_dir_root (walk_fuel st) st base"

text \<open>The name \<open>fs.WalkDir\<close> gives the entry at the path \<open>r\<close> below its root.\<close>

definition rel_name :: "fname list \<Rightarrow> string" where
  "rel_name r = (if r = [] then ''.'' else join_with slash r)"

section \<open>serveFiles\<close>

text \<open>
  A panic is an \<open>Unwrap\<close> or \<open>Check\<close> on an error, or an index out of range;
  \<open>net/http\<close> recovers it and drops the connection. \<open>log.Fatal\<close> ends the server
  process. A successful export is the archive \<open>zipDirFull\<close> writes into the
  \<open>bufio.Writer\<close> wrapped around the response.
\<close>

datatype go_panic = OsPanic os_error | IndexOutOfRange

datatype kit_reply = KitStatus nat string | KitArchive "zip_entry list" | KitPanic go_panic | KitFatal os_error

text \<open>\<open>http.NotFound\<close> and the text of an \<open>os.Stat\<close> error (\<open>*PathError\<close>).\<close>

definition not_found :: kit_reply where
  "not_found = KitStatus 404 (''404 page not found'' @ [CHR 0x0A])"

definition errno_text :: "os_error \<Rightarrow> string" where
  "errno_text e = (case e of
      ENOENT \<Rightarrow> ''no such file or directory'' | EEXIST \<Rightarrow> ''file exists''
    | ENOTDIR \<Rightarrow> ''not a directory'' | EISDIR \<Rightarrow> ''is a directory''
    | ELOOP \<Rightarrow> ''too many levels of symbolic links'' | EINVAL \<Rightarrow> ''invalid argument'')"

definition stat_error_text :: "string \<Rightarrow> os_error \<Rightarrow> string" where
  "stat_error_text p e = ''stat '' @ p @ '': '' @ errno_text e"

text \<open>The loop over the entries of the kits directory, looking for the requested kit.\<close>

fun kit_loop :: "fs_state \<Rightarrow> string \<Rightarrow> string \<Rightarrow> (fname \<times> bool) list \<Rightarrow> (fs_state \<times> kit_reply) option" where
  "kit_loop st kits req [] = Some (st, not_found)"
| "kit_loop st kits req ((n, isd) # rest) =
     (if n \<noteq> req then kit_loop st kits req rest
      else
        (let bin_path = path_join [kits, n, ''bin''] in
         case os_stat st bin_path of
           Inl e \<Rightarrow> Some (st, KitStatus 500 (stat_error_text bin_path e))
         | Inr _ \<Rightarrow>
             (case zip_dir_full st bin_path of
                None \<Rightarrow> None
              | Some (st', Inl e) \<Rightarrow> Some (st', KitPanic (OsPanic e))
              | Some (st', Inr es) \<Rightarrow> Some (st', KitArchive es))))"

text \<open>
  \<open>serveFiles\<close> for a request with method \<open>meth\<close> and URL path \<open>url\<close>, with
  \<open>kits\<close> the value of the \<open>--kits\<close> flag. \<open>os.ReadDir\<close>'s \<open>ErrNotExist\<close> is
  caught by a handler that calls \<open>log.Fatal\<close>; any other error reaches \<open>Unwrap\<close>.
\<close>

definition serve_files :: "fs_state \<Rightarrow> string \<Rightarrow> string \<Rightarrow> string \<Rightarrow> (fs_state \<times> kit_reply) option" where
  "serve_files st kits meth url =
     (if meth \<noteq> ''GET'' then Some (st, KitStatus 405 [])
      else
        (let request_path = split_on slash url in
         if length request_path < 1 then Some (st, not_found)
         else if length request_path < 2 then Some (st, KitPanic IndexOutOfRange)
         else if request_path ! 1 \<noteq> ''kit'' then Some (st, not_found)
         else
           (case os_read_dir st kits of
              Inl ENOENT \<Rightarrow> Some (st, KitFatal ENOENT)
            | Inl e \<Rightarrow> Some (st, KitPanic (OsPanic e))
            | Inr sub_dirs \<Rightarrow>
                (if length request_path < 3 then Some (st, not_found)
                 else kit_loop st kits (request_path ! 2) sub_dirs))))"

section \<open>bufio.Writer\<close>

text \<open>
  Go's \<open>bufio.Writer\<close> of the default size 4096 over the response: \<open>bw_out\<close> is
  what has reached the response, \<open>bw_buf\<close> what waits in the buffer. \<open>Write\<close>
  copies into the buffer while it fits; a write longer than the free space fills the
  buffer and flushes it, or, when the buffer is empty, goes to the response directly.
  The response never fails.
\<close>

definition bufio_size :: nat where
  "bufio_size = 4096"

record bufio_writer =
  bw_out :: bytes
  bw_buf :: bytes

definition bufio_flush :: "bufio_writer \<Rightarrow> bufio_writer" where
  "bufio_flush b = \<lparr>bw_out = bw_out b @ bw_buf b, bw_buf = []\<rparr>"

function bufio_write :: "bufio_writer \<Rightarrow> bytes \<Rightarrow> bufio_writer" where
  "bufio_write b p =
     (if bufio_size - length (bw_buf b) < length p then
        (if bw_buf b = [] then bufio_write (b\<lparr>bw_out := bw_out b @ p\<rparr>) []
         else
           (let n = bufio_size - length (bw_buf b) in
            bufio_write (bufio_flush (b\<lparr>bw_buf := bw_buf b @ take n p\<rparr>)) (drop n p)))
      else b\<lparr>bw_buf := bw_buf b @ p\<rparr>)"
  by pat_completeness auto
termination
  by (relation "measure (\<lambda>(b, p). 2 * length p + (if bw_buf b = [] then 0 else 1))")
     (auto simp: bufio_flush_def)

declare bufio_write.simps [simp del]

text \<open>A sequence of writes into a fresh writer, as \<open>zipDirFull\<close> makes them.\<close>

definition bufio_writes :: "bytes list \<Rightarrow> bufio_writer" where
  "bufio_writes ws = foldl bufio_write \<lparr>bw_out = [], bw_buf = []\<rparr> ws"

section \<open>followIfSymlink is the identity\<close>

text \<open>
  The test \<open>Mode() & os.ModeSymlink != 1\<close> compares a masked word with 1, but the
  mask keeps only bit 27, so the result is 0 or \<open>2^27\<close> and never 1: the test is
  always true, and \<open>followIfSymlink\<close> returns its argument unchanged.
\<close>

lemma and_mode_symlink_ne_1: "(m :: file_mode) AND mode_symlink \<noteq> 1"
proof
  assume h: "m AND mode_symlink = 1"
  have "bit (m AND mode_symlink) 0 = bit (1 :: file_mode) 0" by (simp only: h)
  then show False by (simp add: mode_symlink_def bit_and_iff bit_exp_iff)
qed

lemma zip_visit_eq:
  "zip_visit st base rel =
     Some (st, case os_open st (path_join [base, rel]) of
                 Inl e \<Rightarrow> Inl e
               | Inr f \<Rightarrow>
                   (case file_stat st f of
                      Inl e \<Rightarrow> Inl e
                    | Inr n \<Rightarrow> Inr (if node_size n < 1 \<or> mode_is_dir (node_mode n) then None
                                   else Some (rel, node_bytes n))))"
  by (simp add: zip_visit_def follow_if_symlink.simps [of st] and_mode_symlink_ne_1 split: sum.splits)

section \<open>The walk keeps the store and archives only non-empty files\<close>

lemma node_mode_dir [simp]: "mode_is_dir (node_mode n) \<longleftrightarrow> n = Dir"
  by (simp add: mode_is_dir_def node_mode_def mode_dir_def mode_symlink_def split: node.splits)

lemma zip_visit_entry:
  "wf_fs st \<Longrightarrow> zip_visit st base rel = Some (st', r) \<Longrightarrow>
   st' = st \<and> (\<forall>x. r = Inr (Some x) \<longrightarrow> fst x = rel \<and> snd x \<noteq> [])"
  using os_open_no_link [of st "path_join [base, rel]"]
  by (auto simp: zip_visit_eq node_size_def node_bytes_def is_link_def
      split: sum.splits node.splits if_splits)

abbreviation archived :: "zip_entry list \<Rightarrow> zip_entry list \<Rightarrow> bool" where
  "archived acc es \<equiv> \<exists>new. es = acc @ new \<and> list_all (\<lambda>x. snd x \<noteq> []) new"

lemma walk_dir_ok:
  shows "wf_fs st \<Longrightarrow> walk_dir n st base name isd acc = Some (st', r) \<Longrightarrow>
         st' = st \<and> (\<forall>es. r = Inr es \<longrightarrow> archived acc es)"
    and "wf_fs st \<Longrightarrow> walk_entries n st base name ds acc = Some (st', r) \<Longrightarrow>
         st' = st \<and> (\<forall>es. r = Inr es \<longrightarrow> archived acc es)"
proof (induction n st base name isd acc and n st base name ds acc arbitrary: st' r and st' r
    rule: walk_dir_walk_entries.induct)
  case (1 st base name isdir acc)
  then show ?case by simp
next
  case (2 n st base name isdir acc)
  then show ?case
    using zip_visit_entry [of st base name]
    by (fastforce simp: Let_def split: option.splits sum.splits if_splits)
next
  case (3 n st base name acc)
  then show ?case by (auto intro: exI [of _ "[]"])
next
  case (4 n st base name d isd ds acc)
  then show ?case
    by (fastforce split: option.splits sum.splits)
qed

lemma zip_dir_full_ok:
  "wf_fs st \<Longrightarrow> zip_dir_full st base = Some (st', r) \<Longrightarrow>
   st' = st \<and> (\<forall>es. r = Inr es \<longrightarrow> list_all (\<lambda>x. snd x \<noteq> []) es)"
  using walk_dir_ok(1) [of st "walk_fuel st" base "''.''" _ "[]" st' r]
  by (auto simp: zip_dir_full_def walk_dir_root_def split: sum.splits)

section \<open>The walk returns\<close>

text \<open>
  The walk visits the entry \<open>rel_name r\<close> for a path \<open>r\<close> of plain names below the
  directory \<open>p0\<close> the base resolves to, and reads it as \<open>p0 @ r\<close>. Every directory
  it descends into is a real directory of the store (\<open>ReadDir\<close> reports a link as a
  non-directory), so the depth of the walk is bounded by the longest path of the store,
  and \<open>walk_fuel\<close> is one more than that.
\<close>

lemma split_rel_name:
  "list_all plain_name r \<Longrightarrow> split_on slash (rel_name r) = (if r = [] then [''.''] else r)"
  by (auto simp: rel_name_def split_on_join plain_name_def list_all_iff split_on_no_sep_eq)

lemma is_rooted_append_sep: "is_rooted (xs @ c # ys) = is_rooted (xs @ [c])"
  by (cases xs) (simp_all add: is_rooted_def)

lemma rel_name_not_rooted: "list_all plain_name r \<Longrightarrow> \<not> is_rooted (rel_name r @ slash # d)"
proof (cases r)
  case (Cons x xs)
  moreover assume "list_all plain_name r"
  ultimately have "x \<noteq> [] \<and> hd x \<noteq> slash" by (cases x) (auto simp: plain_name_def)
  with Cons show ?thesis by (cases xs) (auto simp: rel_name_def is_rooted_def)
qed (simp add: rel_name_def is_rooted_def)

lemma path_join_rel_name:
  assumes r: "list_all plain_name r" and d: "plain_name d"
  shows "path_join [rel_name r, d] = rel_name (r @ [d])"
proof -
  have ne: "rel_name r \<noteq> []"
    using r by (cases r) (auto simp: rel_name_def join_with_Nil_iff plain_name_def)
  have sp: "split_on slash (rel_name r @ slash # d) = (if r = [] then [''.''] else r) @ [d]"
    using d by (simp add: split_on_append_sep split_rel_name [OF r] split_on_no_sep_eq plain_name_def)
  have ce: "clean_elems (rel_name r @ slash # d) = r @ [d]"
    using rel_name_not_rooted [OF r, of d] r d
    by (simp add: clean_elems_def sp clean_segs_def foldl_clean_step_plain clean_step_skip)
  have "path_join [rel_name r, d] = clean (rel_name r @ slash # d)" by (rule path_join_two [OF ne])
  also have "\<dots> = join_with slash (r @ [d])"
    using ce rel_name_not_rooted [OF r, of d] by (simp add: clean_eq [of "rel_name r @ slash # d"])
  also have "\<dots> = rel_name (r @ [d])" by (simp add: rel_name_def)
  finally show ?thesis .
qed
lemma foldr_max_ge: "x \<in> set xs \<Longrightarrow> x \<le> foldr max xs (0 :: nat)"
  by (induction xs) auto

lemma key_shorter_fuel: "q \<in> set (fs_keys st) \<Longrightarrow> length q < walk_fuel st"
  using foldr_max_ge [of "length q" "map length (fs_keys st)"] by (simp add: walk_fuel_def)

lemma dir_entries_facts:
  assumes wf: "wf_fs st" and de: "(d, b) \<in> set (dir_entries st q)"
  shows "q @ [d] \<in> set (fs_keys st) \<and> plain_name d \<and> (b \<longrightarrow> node_at st (q @ [d]) = Some Dir)"
proof -
  from de have dn: "d \<in> set (dir_names st q)" and b: "b \<longleftrightarrow> node_at st (q @ [d]) = Some Dir"
    by (auto simp: dir_entries_def)
  from dn obtain k where k: "k \<in> set (fs_keys st)" "k \<noteq> []" "butlast k = q" "last k = d"
    by (auto simp: dir_names_def fs_keys_def)
  then have kq: "k = q @ [d]" by (metis append_butlast_last_id)
  from wf k(1) have "list_all plain_name k" by (auto simp: wf_fs_def)
  with kq have "plain_name d" by simp
  with kq k(1) b show ?thesis by simp
qed

lemma resolve_dirfs:
  assumes wf: "wf_fs st"
    and p0: "walk st max_symlinks True (if is_rooted (base @ [slash]) then [] else cwd st) (split_on slash base) = Inr p0"
    and d0: "node_at st p0 = Some Dir" and r: "list_all plain_name r" and dr: "node_at st (p0 @ r) = Some Dir"
  shows "resolve st True (dirfs_name base (rel_name r)) = Inr (p0 @ r)"
proof -
  obtain k where k: "walk st max_symlinks True (if is_rooted (base @ [slash]) then [] else cwd st)
      (split_on slash base @ split_on slash (rel_name r)) = walk st k True p0 (split_on slash (rel_name r))"
    using walk_append_dir [OF _ p0 d0] by blast
  have "walk st k True p0 (split_on slash (rel_name r)) = Inr (p0 @ r)"
  proof (cases "r = []")
    case True
    with d0 show ?thesis by (simp add: split_rel_name walk_simps)
  next
    case False
    with walk_real [OF wf dr r] show ?thesis by (simp add: split_rel_name [OF r])
  qed
  with k show ?thesis
    by (simp add: resolve_def dirfs_name_def split_on_append_sep is_rooted_append_sep [of base slash "rel_name r"])
qed

lemma os_read_dir_dirfs:
  "wf_fs st \<Longrightarrow>
   walk st max_symlinks True (if is_rooted (base @ [slash]) then [] else cwd st) (split_on slash base) = Inr p0 \<Longrightarrow>
   node_at st p0 = Some Dir \<Longrightarrow> list_all plain_name r \<Longrightarrow> node_at st (p0 @ r) = Some Dir \<Longrightarrow>
   os_read_dir st (dirfs_name base (rel_name r)) = Inr (dir_entries st (p0 @ r))"
  by (simp add: os_read_dir_def resolve_dirfs)
lemma walk_dir_returns:
  assumes wf: "wf_fs st"
    and p0: "walk st max_symlinks True (if is_rooted (base @ [slash]) then [] else cwd st) (split_on slash base) = Inr p0"
    and d0: "node_at st p0 = Some Dir"
  shows "0 < n \<Longrightarrow> walk_fuel st \<le> n + length (p0 @ r) \<Longrightarrow> list_all plain_name r \<Longrightarrow>
         (isd \<Longrightarrow> node_at st (p0 @ r) = Some Dir) \<Longrightarrow> walk_dir n st base (rel_name r) isd acc \<noteq> None"
proof (induction n arbitrary: r isd acc)
  case 0
  then show ?case by simp
next
  case (Suc n)
  show ?case
  proof (cases "isd")
    case False
    then show ?thesis by (simp add: zip_visit_eq Let_def split: sum.splits)
  next
    case True
    let ?q = "p0 @ r"
    have rd: "os_read_dir st (dirfs_name base (rel_name r)) = Inr (dir_entries st ?q)"
      using os_read_dir_dirfs [OF wf p0 d0 Suc.prems(3) Suc.prems(4) [OF True]] .
    have "set ds \<subseteq> set (dir_entries st ?q) \<Longrightarrow> walk_entries n st base (rel_name r) ds a \<noteq> None" for ds a
    proof (induction ds arbitrary: a)
      case Nil
      then show ?case by simp
    next
      case (Cons e ds)
      obtain d b where e: "e = (d, b)" by fastforce
      with Cons.prems dir_entries_facts [OF wf, of d b ?q] have
        key: "?q @ [d] \<in> set (fs_keys st)" and pd: "plain_name d"
        and bd: "b \<longrightarrow> node_at st (?q @ [d]) = Some Dir" by auto
      from key_shorter_fuel [OF key] Suc.prems(2) have fuel: "0 < n" "walk_fuel st \<le> n + length (p0 @ r @ [d])"
        by simp_all
      have "walk_dir n st base (rel_name (r @ [d])) b a \<noteq> None"
        using Suc.IH [OF fuel, of b a] Suc.prems(3) pd bd by simp
      then obtain st1 x where w: "walk_dir n st base (rel_name (r @ [d])) b a = Some (st1, x)" by auto
      from walk_dir_ok(1) [OF wf w] have "st1 = st" by simp
      with w Cons.IH [of _] Cons.prems e path_join_rel_name [OF Suc.prems(3) pd] show ?case
        by (auto split: sum.splits)
    qed
    then show ?thesis using True rd by (simp add: zip_visit_eq Let_def split: sum.splits)
  qed
qed

lemma zip_dir_full_returns: "wf_fs st \<Longrightarrow> zip_dir_full st base \<noteq> None"
proof -
  assume wf: "wf_fs st"
  let ?c0 = "if is_rooted (base @ [slash]) then [] else cwd st"
  have res: "resolve st True (dirfs_name base ''.'') =
      walk st max_symlinks True ?c0 (split_on slash base @ [''.''])"
    by (simp add: resolve_def dirfs_name_def split_on_append_sep is_rooted_append_sep [of base slash "''.''"])
  show ?thesis
  proof (cases "os_stat st (dirfs_name base ''.'')")
    case (Inl e)
    then show ?thesis by (simp add: zip_dir_full_def walk_dir_root_def)
  next
    case (Inr nd)
    show ?thesis
    proof (cases "nd = Dir")
      case False
      with Inr show ?thesis
        by (simp add: zip_dir_full_def walk_dir_root_def walk_fuel_def zip_visit_eq Let_def split: sum.splits)
    next
      case True
      with Inr res obtain p0 where w: "walk st max_symlinks True ?c0 (split_on slash base @ [''.'']) = Inr p0"
        and d0: "node_at st p0 = Some Dir"
        by (auto simp: os_stat_def split: sum.splits option.splits)
      have p0: "walk st max_symlinks True ?c0 (split_on slash base) = Inr p0"
        using walk_snoc_dot [OF _ w d0] by simp
      have "walk_dir (walk_fuel st) st base (rel_name []) True [] \<noteq> None"
        using walk_dir_returns [OF wf p0 d0, of "walk_fuel st" "[]" True "[]"] d0
        by (simp add: walk_fuel_def)
      with Inr True show ?thesis by (simp add: zip_dir_full_def walk_dir_root_def rel_name_def)
    qed
  qed
qed

section \<open>The buffered writer\<close>

text \<open>
  Every byte written is either in the response or in the buffer, in order, and the
  buffer never holds more than 4096 bytes. A short last write always stays in the buffer.
\<close>

lemma bufio_write_conserves:
  "bw_out (bufio_write b p) @ bw_buf (bufio_write b p) = bw_out b @ bw_buf b @ p"
proof (induction b p rule: bufio_write.induct)
  case (1 b p)
  then show ?case unfolding bufio_write.simps [of b p] by (auto simp: bufio_flush_def Let_def)
qed

lemma bufio_write_bound:
  "length (bw_buf b) \<le> bufio_size \<Longrightarrow> length (bw_buf (bufio_write b p)) \<le> bufio_size"
proof (induction b p rule: bufio_write.induct)
  case (1 b p)
  then show ?case unfolding bufio_write.simps [of b p] by (auto simp: bufio_flush_def Let_def)
qed

lemma bufio_write_short_pending:
  assumes bd: "length (bw_buf b) \<le> bufio_size" and ne: "p \<noteq> []" and sh: "length p \<le> bufio_size"
  shows "bw_buf (bufio_write b p) \<noteq> []"
proof (cases "bufio_size - length (bw_buf b) < length p")
  case False
  with ne show ?thesis by (subst bufio_write.simps) simp
next
  case True
  let ?n = "bufio_size - length (bw_buf b)"
  have bne: "bw_buf b \<noteq> []" using True sh by auto
  let ?b1 = "bufio_flush (b\<lparr>bw_buf := bw_buf b @ take ?n p\<rparr>)"
  have e1: "bufio_write b p = bufio_write ?b1 (drop ?n p)"
    using True bne by (subst bufio_write.simps) (simp add: Let_def)
  have c: "\<not> bufio_size - length (bw_buf ?b1) < length (drop ?n p)" and d: "drop ?n p \<noteq> []"
    using True sh by (simp_all add: bufio_flush_def)
  have "bufio_write ?b1 (drop ?n p) = ?b1\<lparr>bw_buf := bw_buf ?b1 @ drop ?n p\<rparr>"
    using c by (subst bufio_write.simps) simp
  with d show ?thesis by (simp add: e1)
qed

lemma bufio_writes_snoc: "bufio_writes (ws @ [w]) = bufio_write (bufio_writes ws) w"
  by (simp add: bufio_writes_def)

lemma bufio_writes_invariant:
  "bw_out (bufio_writes ws) @ bw_buf (bufio_writes ws) = concat ws \<and>
   length (bw_buf (bufio_writes ws)) \<le> bufio_size"
proof (induction ws rule: rev_induct)
  case Nil
  then show ?case by (simp add: bufio_writes_def bufio_size_def)
next
  case (snoc w ws)
  then show ?case
    using bufio_write_conserves [of "bufio_writes ws" w] bufio_write_bound [of "bufio_writes ws" w]
    by (simp add: bufio_writes_snoc)
qed

section \<open>serveFiles returns\<close>

lemma kit_loop_returns: "wf_fs st \<Longrightarrow> kit_loop st kits req ds \<noteq> None"
  by (induction ds rule: kit_loop.induct)
     (auto simp: Let_def dest: zip_dir_full_returns split: sum.splits option.splits)

lemma kit_loop_state: "wf_fs st \<Longrightarrow> kit_loop st kits req ds = Some (st', rep) \<Longrightarrow> st' = st"
  by (induction ds rule: kit_loop.induct)
     (auto simp: Let_def dest: zip_dir_full_ok split: sum.splits option.splits if_splits)

lemma serve_files_state: "wf_fs st \<Longrightarrow> serve_files st kits meth url = Some (st', rep) \<Longrightarrow> st' = st"
  by (auto simp: serve_files_def Let_def dest: kit_loop_state split: sum.splits os_error.splits if_splits)

lemma split_kit_url: "split_on slash (''/kit/'' @ name) = [[], ''kit''] @ split_on slash name"
  using split_on_append_sep [of slash "[]" "''kit/'' @ name"] split_on_append_sep [of slash "''kit''" name]
  by (simp add: split_on_no_sep_eq)

lemma bit_mode_symlink: "bit mode_symlink n \<longleftrightarrow> n = 27"
  unfolding mode_symlink_def by (simp only: bit_exp_iff) auto

section \<open>Examples\<close>

text \<open>
  A kit directory as in the specification's end-to-end example (\<open>a.txt\<close> holding
  \<open>hello\<close> and \<open>link.txt\<close> a link to it), with an empty file and a subdirectory
  added; and one holding two links that point at each other.
\<close>

definition kit_example :: fs_state where
  "kit_example =
     \<lparr>fs_entries =
        [([''srv''], Dir), ([''srv'', ''kits''], Dir), ([''srv'', ''kits'', ''linux''], Dir),
         ([''srv'', ''kits'', ''linux'', ''bin''], Dir),
         ([''srv'', ''kits'', ''linux'', ''bin'', ''a.txt''], File [0x68, 0x65, 0x6C, 0x6C, 0x6F]),
         ([''srv'', ''kits'', ''linux'', ''bin'', ''e''], File []),
         ([''srv'', ''kits'', ''linux'', ''bin'', ''link.txt''], Symlink ''a.txt''),
         ([''srv'', ''kits'', ''linux'', ''bin'', ''sub''], Dir),
         ([''srv'', ''kits'', ''linux'', ''bin'', ''sub'', ''b.txt''], File [0x68, 0x69])],
      cwd = [''srv'']\<rparr>"

definition kit_cycle_example :: fs_state where
  "kit_cycle_example =
     \<lparr>fs_entries =
        [([''srv''], Dir), ([''srv'', ''kits''], Dir), ([''srv'', ''kits'', ''linux''], Dir),
         ([''srv'', ''kits'', ''linux'', ''bin''], Dir),
         ([''srv'', ''kits'', ''linux'', ''bin'', ''l1''], Symlink ''l2''),
         ([''srv'', ''kits'', ''linux'', ''bin'', ''l2''], Symlink ''l1'')],
      cwd = [''srv'']\<rparr>"

lemmas kit_defs = serve_files_def zip_dir_full_def walk_dir_root_def walk_fuel_def zip_visit_def
  node_mode_def mode_symlink_def mode_dir_def node_size_def mode_is_dir_def node_bytes_def dirfs_name_def
  not_found_def follow_if_symlink.simps

section \<open>Properties of the kit server\<close>

text \<open>
  C7. \<open>followIfSymlink\<close> returns, and returns the file it was given, in every state
  and for every file: its symlink test \<open>Mode() & ModeSymlink != 1\<close> is always true,
  so the chain-following branch is dead code. Only a failing \<open>Stat\<close> changes the
  outcome, into a panic.
\<close>

theorem follow_if_symlink_identity:
  "follow_if_symlink st f = Some (st, case file_stat st f of Inl e \<Rightarrow> Inl e | Inr _ \<Rightarrow> Inr f)"
  by (subst follow_if_symlink.simps) (simp add: and_mode_symlink_ne_1 split: sum.splits)

text \<open>
  C8. The archive walk of \<open>zipDirFull\<close> returns on every well-formed store, whatever
  the links below the base (the walk never descends through a link, and the resolution of
  each entry stops after 40 links); it leaves the store as it was, and every entry of an
  archive it completes has non-empty content.
\<close>

theorem zip_dir_full_total:
  assumes wf: "wf_fs st"
  shows "\<exists>r. zip_dir_full st base = Some (st, r) \<and> (\<forall>es. r = Inr es \<longrightarrow> list_all (\<lambda>x. snd x \<noteq> []) es)"
proof -
  obtain st' r where z: "zip_dir_full st base = Some (st', r)"
    using zip_dir_full_returns [OF wf, of base] by (cases "zip_dir_full st base") auto
  with zip_dir_full_ok [OF wf z] show ?thesis by auto
qed

theorem zip_dir_full_total_witness:
  "wf_fs kit_example \<and>
   (\<exists>r. zip_dir_full kit_example ''kits/linux/bin'' = Some (kit_example, r) \<and>
        (\<forall>es. r = Inr es \<longrightarrow> list_all (\<lambda>x. snd x \<noteq> []) es))"
proof -
  have wf: "wf_fs kit_example" by (simp add: kit_example_def fs_simps go_simps)
  with zip_dir_full_total [OF wf, of "''kits/linux/bin''"] show ?thesis by simp
qed

text \<open>
  The specification's end-to-end export: \<open>GET /kit/linux\<close> archives
  \<open>a.txt\<close> and \<open>link.txt\<close> both with the content \<open>hello\<close>, and the file of
  the subdirectory under its relative path; the empty file and the directories get no
  entry, and the entries come in lexical order.
\<close>

lemma serve_files_export_example:
  "serve_files kit_example ''kits'' ''GET'' ''/kit/linux'' =
     Some (kit_example, KitArchive [(''a.txt'', [0x68, 0x65, 0x6C, 0x6C, 0x6F]),
       (''link.txt'', [0x68, 0x65, 0x6C, 0x6C, 0x6F]), (''sub/b.txt'', [0x68, 0x69])])"
  by (simp add: kit_example_def kit_defs fs_simps go_simps Let_def)

text \<open>
  Two links that point at each other do not make the export loop: opening one of
  them fails with \<open>ELOOP\<close> after 40 links, \<open>Unwrap\<close> panics, and the request
  ends without an archive.
\<close>

lemma serve_files_cycle_panics:
  "serve_files kit_cycle_example ''kits'' ''GET'' ''/kit/linux'' =
     Some (kit_cycle_example, KitPanic (OsPanic ELOOP))"
  by (simp add: kit_cycle_example_def kit_defs fs_simps go_simps Let_def)

text \<open>
  \<open>serveFiles\<close> returns on every request to a well-formed store: a reply, a
  panic or the end of the process, never a computation that goes on for ever.
\<close>

lemma serve_files_total: "wf_fs st \<Longrightarrow> \<exists>r. serve_files st kits meth url = Some r"
  using kit_loop_returns [of st kits]
  by (auto simp: serve_files_def Let_def split: sum.splits os_error.splits)

text \<open>
  C9. A kit request when the kits directory does not exist ends the whole server
  process: the \<open>ErrNotExist\<close> handler of \<open>os.ReadDir\<close> calls \<open>log.Fatal\<close>.
\<close>

theorem serve_files_missing_kits_fatal:
  "os_read_dir st kits = Inl ENOENT \<Longrightarrow>
   serve_files st kits ''GET'' (''/kit/'' @ name) = Some (st, KitFatal ENOENT)"
  by (simp add: serve_files_def split_kit_url)

theorem serve_files_missing_kits_fatal_witness:
  "os_read_dir \<lparr>fs_entries = [], cwd = []\<rparr> ''kits'' = Inl ENOENT \<and>
   serve_files \<lparr>fs_entries = [], cwd = []\<rparr> ''kits'' ''GET'' (''/kit/'' @ ''linux'') =
     Some (\<lparr>fs_entries = [], cwd = []\<rparr>, KitFatal ENOENT)"
proof -
  have r: "os_read_dir \<lparr>fs_entries = [], cwd = []\<rparr> ''kits'' = Inl ENOENT" by (simp add: fs_simps go_simps)
  with serve_files_missing_kits_fatal [OF r] show ?thesis by simp
qed

text \<open>
  The \<open>bufio.Writer\<close> that \<open>serveFiles\<close> wraps around the response is never
  flushed: when the last write is non-empty and fits the buffer (as the zip writer's
  final flush of its own 4096-byte buffer does), the client receives a strict prefix of
  the bytes written, and the archive is truncated.
\<close>

lemma bufio_unflushed_truncates:
  assumes ne: "ws \<noteq> []" "last ws \<noteq> []" and sh: "length (last ws) \<le> bufio_size"
  shows "strict_prefix (bw_out (bufio_writes ws)) (concat ws)"
proof -
  obtain vs w where ws: "ws = vs @ [w]" using ne(1) by (cases ws rule: rev_cases) auto
  have "bw_buf (bufio_writes ws) \<noteq> []"
    using bufio_write_short_pending [of "bufio_writes vs" w] bufio_writes_invariant [of vs] ne sh ws
    by (simp add: bufio_writes_snoc)
  with bufio_writes_invariant [of ws] show ?thesis
    by (metis append.right_neutral prefixI prefix_order.dual_order.not_eq_order_implies_strict
        same_append_eq)
qed

text \<open>
  The mask in \<open>followIfSymlink\<close>'s test keeps one bit of the mode: the result
  is \<open>ModeSymlink\<close> or 0, never 1.
\<close>

lemma mode_symlink_mask:
  "(m :: file_mode) AND mode_symlink = (if bit m 27 then mode_symlink else 0)"
  by (rule bit_eqI) (auto simp: bit_and_iff bit_mode_symlink)

end
