(* ===== verification/Server.thy ===== *)
theory Server
  imports Upload Kit
begin

text \<open>
  The two servers of the repository run as two processes on one machine: the upload
  server (\<open>src/main.go\<close>) and the kit server (\<open>src/cmd/redkit/main.go\<close>). They
  share the file system and each has its own working directory; the kit server ends
  when \<open>serveFiles\<close> calls \<open>log.Fatal\<close>. The system state records the shared store,
  the two working directories, whether the kit server still runs, and the value of its
  \<open>--kits\<close> flag. A step answers one request of either server on the store as it is;
  a run is a sequence of steps, so every interleaving of the requests of the two servers
  is a run. The chroot package is not linked into either server and takes no part.
\<close>

record system =
  sys_entries :: "(apath \<times> node) list"
  upload_cwd :: apath
  kit_cwd :: apath
  kit_alive :: bool
  kits_flag :: string

text \<open>The file-system state one process sees: the shared store and its own directory.\<close>

definition proc_view :: "system \<Rightarrow> apath \<Rightarrow> fs_state" where
  "proc_view s d = \<lparr>fs_entries = sys_entries s, cwd = d\<rparr>"

datatype event =
    EvChroot request http_reply
  | EvUpload request http_reply
  | EvKit string string kit_reply
  | EvKitDown string string

text \<open>
  A request to the kit server after it has exited is refused (the connection is not
  accepted) and changes nothing.
\<close>

inductive sys_step :: "system \<Rightarrow> event \<Rightarrow> system \<Rightarrow> bool" where
  chroot: "chroot_handler (proc_view s (upload_cwd s)) req = (st', rep) \<Longrightarrow>
    sys_step s (EvChroot req rep) (s\<lparr>sys_entries := fs_entries st', upload_cwd := cwd st'\<rparr>)"
| upload: "upload_handler (proc_view s (upload_cwd s)) req = (st', rep) \<Longrightarrow>
    sys_step s (EvUpload req rep) (s\<lparr>sys_entries := fs_entries st', upload_cwd := cwd st'\<rparr>)"
| kit: "kit_alive s \<Longrightarrow> serve_files (proc_view s (kit_cwd s)) (kits_flag s) meth url = Some (st', rep) \<Longrightarrow>
    sys_step s (EvKit meth url rep)
      (s\<lparr>sys_entries := fs_entries st', kit_cwd := cwd st', kit_alive := (rep \<noteq> KitFatal ENOENT)\<rparr>)"
| kit_down: "\<not> kit_alive s \<Longrightarrow> sys_step s (EvKitDown meth url) s"

inductive sys_run :: "system \<Rightarrow> event list \<Rightarrow> system \<Rightarrow> bool" where
  run_nil: "sys_run s [] s"
| run_cons: "sys_step s e s' \<Longrightarrow> sys_run s' es s'' \<Longrightarrow> sys_run s (e # es) s''"

inductive_cases sys_step_kitE: "sys_step s (EvKit meth url rep) s'"
inductive_cases sys_step_chrootE: "sys_step s (EvChroot req rep) s'"
inductive_cases sys_step_uploadE: "sys_step s (EvUpload req rep) s'"

text \<open>Both processes see a well-formed store from their own working directory.\<close>

definition wf_sys :: "system \<Rightarrow> bool" where
  "wf_sys s \<longleftrightarrow> wf_fs (proc_view s (upload_cwd s)) \<and> wf_fs (proc_view s (kit_cwd s))"

text \<open>
  Whether an event is a request to the kit server, and the requests whose field names
  stay inside their directory (\<open>escapes\<close> is false for every name of a chroot form).
\<close>

fun is_kit_event :: "event \<Rightarrow> bool" where
  "is_kit_event (EvKit meth url rep) = True"
| "is_kit_event (EvKitDown meth url) = True"
| "is_kit_event _ = False"

fun kit_served :: "event \<Rightarrow> bool" where
  "kit_served (EvKit meth url rep) = True"
| "kit_served _ = False"

fun safe_event :: "event \<Rightarrow> bool" where
  "safe_event (EvChroot req rep) =
     (case req_form req of None \<Rightarrow> True | Some form \<Rightarrow> list_all (\<lambda>(n, _). \<not> escapes n) (form_files form))"
| "safe_event _ = True"

text \<open>The request an event answers, as the two muxes route it.\<close>

datatype sys_req = ReqChroot request | ReqUpload request | ReqKit string string

fun event_req :: "event \<Rightarrow> sys_req" where
  "event_req (EvChroot req rep) = ReqChroot req"
| "event_req (EvUpload req rep) = ReqUpload req"
| "event_req (EvKit meth url rep) = ReqKit meth url"
| "event_req (EvKitDown meth url) = ReqKit meth url"

section \<open>Each step keeps the system well formed\<close>

lemma proc_view_cwd [simp]: "cwd (proc_view s d) = d"
  by (simp add: proc_view_def)

lemma view_cwd_update [simp]: "\<lparr>fs_entries = fs_entries st, cwd = d\<rparr> = st\<lparr>cwd := d\<rparr>"
  by (cases st) simp

text \<open>A request that keeps every directory keeps the other process's view well formed.\<close>

lemma wf_other_view:
  assumes w: "wf_fs (proc_view s d)" and w': "wf_fs st'" and k: "keeps_dirs (proc_view s c) st'"
  shows "wf_fs (st'\<lparr>cwd := d\<rparr>)"
proof -
  have "node_at (proc_view s d) d = Some Dir" "list_all plain_name d"
    using w by (simp_all add: wf_fs_def)
  moreover have "node_at (proc_view s c) = node_at (proc_view s d)"
    by (simp add: proc_view_def node_at_def fun_eq_iff)
  ultimately show ?thesis using k w' by (simp add: keeps_dirs_def wf_fs_cwd)
qed

lemma sys_step_wf:
  assumes step: "sys_step s e s'" and wf: "wf_sys s"
  shows "wf_sys s' \<and> upload_cwd s' = upload_cwd s \<and> kit_cwd s' = kit_cwd s"
  using step
proof cases
  case (chroot req st' rep)
  from chroot_handler_wf_keeps [OF _ chroot(3)] wf have
    c: "cwd st' = upload_cwd s" and w: "wf_fs st'" and "keeps_dirs (proc_view s (upload_cwd s)) st'"
    by (simp_all add: wf_sys_def)
  moreover have "wf_fs (st'\<lparr>cwd := upload_cwd s\<rparr>)" using w c [symmetric] by (cases st') simp
  ultimately show ?thesis using wf wf_other_view [of s "kit_cwd s" st' "upload_cwd s"] chroot(2)
    by (auto simp: wf_sys_def proc_view_def)
next
  case (upload req st' rep)
  from upload_handler_wf_keeps [OF _ upload(3)] wf have
    c: "cwd st' = upload_cwd s" and w: "wf_fs st'" and "keeps_dirs (proc_view s (upload_cwd s)) st'"
    by (simp_all add: wf_sys_def)
  moreover have "wf_fs (st'\<lparr>cwd := upload_cwd s\<rparr>)" using w c [symmetric] by (cases st') simp
  ultimately show ?thesis using wf wf_other_view [of s "kit_cwd s" st' "upload_cwd s"] upload(2)
    by (auto simp: wf_sys_def proc_view_def)
next
  case (kit meth url st' rep)
  from serve_files_state [OF _ kit(4)] wf have "st' = proc_view s (kit_cwd s)"
    by (simp add: wf_sys_def)
  with wf kit(2) show ?thesis by (simp add: wf_sys_def proc_view_def)
next
  case (kit_down meth url)
  with wf show ?thesis by simp
qed

lemma sys_step_kit_state:
  "wf_sys s \<Longrightarrow> sys_step s e s' \<Longrightarrow> is_kit_event e \<Longrightarrow>
   sys_entries s' = sys_entries s \<and> kit_cwd s' = kit_cwd s \<and> upload_cwd s' = upload_cwd s"
  by (erule sys_step.cases) (auto simp: wf_sys_def proc_view_def dest: serve_files_state)

lemma node_at_proc_view: "node_at (proc_view s d) q = node_at (proc_view s c) q"
  by (simp add: proc_view_def node_at_def)

lemma no_links_proc_view: "no_links_under (proc_view s d) pre = no_links_under (proc_view s c) pre"
  by (simp add: no_links_under_iff proc_view_def node_at_def)

lemma prefix_snoc_distinct: "prefix (c @ [a]) q \<Longrightarrow> prefix (c @ [b]) q \<Longrightarrow> a = b"
proof -
  assume "prefix (c @ [a]) q" "prefix (c @ [b]) q"
  then have "prefix (c @ [a]) (c @ [b]) \<or> prefix (c @ [b]) (c @ [a])" by (rule prefix_same_cases)
  then show "a = b" by (auto simp: prefix_def)
qed

lemma chroot_ne_uploads [simp]: "''chroot'' \<noteq> ''uploads''"
  by simp

text \<open>A handler run from the upload server's directory, seen again from that directory.\<close>

lemma step_view: "cwd st' = d \<Longrightarrow> proc_view (s\<lparr>sys_entries := fs_entries st', upload_cwd := cwd st'\<rparr>) d = st'"
  by (cases st') (simp add: proc_view_def)

lemma links_other_dir:
  "unchanged_outside (c @ [a]) st st' \<Longrightarrow> a \<noteq> b \<Longrightarrow> no_links_under st (c @ [b]) \<Longrightarrow>
   no_links_under st' (c @ [b])"
  by (auto simp: no_links_under_iff unchanged_outside_iff dest: prefix_snoc_distinct)

text \<open>
  One step of either server from a state with no link below \<open>chroot/\<close> or
  \<open>uploads/\<close> of the upload server's directory keeps that so and changes nothing
  outside those two directories.
\<close>

lemma sys_step_frame:
  assumes step: "sys_step s e s'" and wf: "wf_sys s" and safe: "safe_event e"
    and nc: "no_links_under (proc_view s (upload_cwd s)) (upload_cwd s @ [''chroot''])"
    and nu: "no_links_under (proc_view s (upload_cwd s)) (upload_cwd s @ [''uploads''])"
  shows "no_links_under (proc_view s' (upload_cwd s)) (upload_cwd s @ [''chroot'']) \<and>
         no_links_under (proc_view s' (upload_cwd s)) (upload_cwd s @ [''uploads'']) \<and>
         (\<forall>q. \<not> prefix (upload_cwd s @ [''chroot'']) q \<longrightarrow> \<not> prefix (upload_cwd s @ [''uploads'']) q \<longrightarrow>
              node_at (proc_view s' (upload_cwd s)) q = node_at (proc_view s (upload_cwd s)) q)"
  using step
proof cases
  case (chroot req st' rep)
  have names: "\<forall>form. req_form req = Some form \<longrightarrow>
      list_all (\<lambda>(n, _). \<not> escapes n) (form_files form)"
    using safe chroot(1) by (simp split: option.splits)
  from chroot_handler_frame [OF _ _ _ chroot(3)] wf nc names have
    u: "unchanged_outside (upload_cwd s @ [''chroot'']) (proc_view s (upload_cwd s)) st'"
    and c: "cwd st' = upload_cwd s" and l: "no_links_under st' (upload_cwd s @ [''chroot''])"
    by (simp_all add: wf_sys_def)
  have "no_links_under st' (upload_cwd s @ [''uploads''])"
    using links_other_dir [OF u _ nu] by simp
  moreover have "proc_view s' (upload_cwd s) = st'" by (simp only: chroot(2) step_view [OF c])
  ultimately show ?thesis using u l by (simp add: unchanged_outside_iff)
next
  case (upload req st' rep)
  from upload_handler_frame [OF _ _ upload(3)] wf nu have
    u: "unchanged_outside (upload_cwd s @ [''uploads'']) (proc_view s (upload_cwd s)) st'"
    and c: "cwd st' = upload_cwd s" and l: "no_links_under st' (upload_cwd s @ [''uploads''])"
    by (simp_all add: wf_sys_def)
  have "no_links_under st' (upload_cwd s @ [''chroot''])"
    using links_other_dir [OF u _ nc] by simp
  moreover have "proc_view s' (upload_cwd s) = st'" by (simp only: upload(2) step_view [OF c])
  ultimately show ?thesis using u l by (simp add: unchanged_outside_iff)
next
  case (kit meth url st' rep)
  from sys_step_kit_state [OF wf step] kit(1) have "sys_entries s' = sys_entries s" by simp
  then have "proc_view s' (upload_cwd s) = proc_view s (upload_cwd s)" by (simp add: proc_view_def)
  with nc nu show ?thesis by simp
next
  case (kit_down meth url)
  with nc nu show ?thesis by simp
qed

lemma sys_run_frame:
  "sys_run s es s' \<Longrightarrow> wf_sys s \<Longrightarrow> list_all safe_event es \<Longrightarrow>
   no_links_under (proc_view s (upload_cwd s)) (upload_cwd s @ [''chroot'']) \<Longrightarrow>
   no_links_under (proc_view s (upload_cwd s)) (upload_cwd s @ [''uploads'']) \<Longrightarrow>
   \<not> prefix (upload_cwd s @ [''chroot'']) q \<Longrightarrow> \<not> prefix (upload_cwd s @ [''uploads'']) q \<Longrightarrow>
   node_at (proc_view s' (upload_cwd s)) q = node_at (proc_view s (upload_cwd s)) q"
proof (induction rule: sys_run.induct)
  case (run_nil s)
  then show ?case by simp
next
  case (run_cons s e s1 es s'')
  from sys_step_wf [OF run_cons.hyps(1) run_cons.prems(1)] have
    w1: "wf_sys s1" and c1: "upload_cwd s1 = upload_cwd s" by simp_all
  from sys_step_frame [OF run_cons.hyps(1) run_cons.prems(1)] run_cons.prems(2-6) have
    "no_links_under (proc_view s1 (upload_cwd s)) (upload_cwd s @ [''chroot''])"
    "no_links_under (proc_view s1 (upload_cwd s)) (upload_cwd s @ [''uploads''])"
    "node_at (proc_view s1 (upload_cwd s)) q = node_at (proc_view s (upload_cwd s)) q"
    by simp_all
  with run_cons.IH [OF w1] run_cons.prems(2,5,6) c1 show ?case by simp
qed

section \<open>Requests of the upload server do not depend on the kit server\<close>

lemma sys_step_upload_transfer:
  assumes step: "sys_step s e s'" and nk: "\<not> is_kit_event e"
    and e: "sys_entries t = sys_entries s" and c: "upload_cwd t = upload_cwd s"
  shows "\<exists>t'. sys_step t e t' \<and> sys_entries t' = sys_entries s' \<and> upload_cwd t' = upload_cwd s'"
  using step
proof cases
  case (chroot req st' rep)
  have "proc_view t (upload_cwd t) = proc_view s (upload_cwd s)" using e c by (simp add: proc_view_def)
  with chroot(3) have "chroot_handler (proc_view t (upload_cwd t)) req = (st', rep)" by simp
  from sys_step.chroot [OF this] chroot(1,2) show ?thesis by auto
next
  case (upload req st' rep)
  have "proc_view t (upload_cwd t) = proc_view s (upload_cwd s)" using e c by (simp add: proc_view_def)
  with upload(3) have "upload_handler (proc_view t (upload_cwd t)) req = (st', rep)" by simp
  from sys_step.upload [OF this] upload(1,2) show ?thesis by auto
qed (use nk in simp_all)

lemma sys_run_upload_transfer:
  "sys_run s es s' \<Longrightarrow> list_all (\<lambda>e. \<not> is_kit_event e) es \<Longrightarrow>
   sys_entries t = sys_entries s \<Longrightarrow> upload_cwd t = upload_cwd s \<Longrightarrow>
   \<exists>t'. sys_run t es t' \<and> sys_entries t' = sys_entries s' \<and> upload_cwd t' = upload_cwd s'"
proof (induction arbitrary: t rule: sys_run.induct)
  case (run_nil s)
  then show ?case using sys_run.run_nil by blast
next
  case (run_cons s e s1 es s'')
  from sys_step_upload_transfer [OF run_cons.hyps(1) _ run_cons.prems(2,3)] run_cons.prems(1)
  obtain t1 where t1: "sys_step t e t1" "sys_entries t1 = sys_entries s1" "upload_cwd t1 = upload_cwd s1"
    by auto
  from run_cons.IH [OF _ t1(2,3)] run_cons.prems(1) obtain t' where
    "sys_run t1 es t'" "sys_entries t' = sys_entries s''" "upload_cwd t' = upload_cwd s''"
    by auto
  with t1(1) show ?case using sys_run.run_cons by blast
qed

section \<open>Every request gets an outcome\<close>

lemma sys_step_exists: "wf_sys s \<Longrightarrow> \<exists>e s'. sys_step s e s' \<and> event_req e = r"
proof (cases r)
  case (ReqChroot req)
  obtain st' rep where "chroot_handler (proc_view s (upload_cwd s)) req = (st', rep)" by fastforce
  from sys_step.chroot [OF this] ReqChroot show ?thesis by fastforce
next
  case (ReqUpload req)
  obtain st' rep where "upload_handler (proc_view s (upload_cwd s)) req = (st', rep)" by fastforce
  from sys_step.upload [OF this] ReqUpload show ?thesis by fastforce
next
  case (ReqKit meth url)
  assume wf: "wf_sys s"
  show ?thesis
  proof (cases "kit_alive s")
    case True
    have "\<exists>r'. serve_files (proc_view s (kit_cwd s)) (kits_flag s) meth url = Some r'"
      using kit_loop_returns [of "proc_view s (kit_cwd s)" "kits_flag s"] wf
      by (auto simp: wf_sys_def serve_files_def Let_def split: sum.splits os_error.splits)
    then obtain st' rep where "serve_files (proc_view s (kit_cwd s)) (kits_flag s) meth url = Some (st', rep)"
      by auto
    from sys_step.kit [OF True this] ReqKit show ?thesis by fastforce
  next
    case False
    from sys_step.kit_down [OF False] ReqKit show ?thesis by fastforce
  qed
qed

lemma sys_step_dead:
  "sys_step s e s' \<Longrightarrow> \<not> kit_alive s \<Longrightarrow> \<not> kit_alive s' \<and> \<not> kit_served e"
  by (erule sys_step.cases) auto

lemma sys_run_dead:
  "sys_run s es s' \<Longrightarrow> \<not> kit_alive s \<Longrightarrow> \<not> kit_alive s' \<and> \<not> list_ex kit_served es"
proof (induction rule: sys_run.induct)
  case (run_nil s)
  then show ?case by simp
next
  case (run_cons s e s1 es s'')
  with sys_step_dead [OF run_cons.hyps(1)] show ?case by simp
qed

section \<open>Examples\<close>

definition example_system :: system where
  "example_system =
     \<lparr>sys_entries = [([''srv''], Dir), ([''srv'', ''kits''], Dir)], upload_cwd = [''srv''],
      kit_cwd = [''srv''], kit_alive = True, kits_flag = ''kits''\<rparr>"

text \<open>The system after one chroot upload of the file \<open>a\<close>.\<close>

definition example_after :: system where
  "example_after = example_system\<lparr>sys_entries :=
     [([''srv''], Dir), ([''srv'', ''kits''], Dir), ([''srv'', ''chroot''], Dir), ([''srv'', ''chroot'', ''a''], File [1])]\<rparr>"

definition example_req :: request where
  "example_req = \<lparr>req_method = ''POST'', req_form = Some \<lparr>form_files = [(''a'', [[1]])]\<rparr>\<rparr>"

definition example_events :: "event list" where
  "example_events = [EvKit ''GET'' ''/kit/linux'' not_found,
     EvChroot example_req (Reply 200 ''Received file(s) successfully.''), EvKit ''GET'' ''/kit/linux'' not_found]"

lemmas example_defs = example_system_def example_after_def example_req_def proc_view_def upload_defs kit_defs

lemma example_wf: "wf_sys example_system"
  by (simp add: wf_sys_def example_defs fs_simps go_simps)

lemma example_kit_step:
  "wf_sys s \<Longrightarrow> kit_alive s \<Longrightarrow> kits_flag s = ''kits'' \<Longrightarrow> sys_entries s \<in> set [sys_entries example_system, sys_entries example_after] \<Longrightarrow>
   kit_cwd s = [''srv''] \<Longrightarrow> sys_step s (EvKit ''GET'' ''/kit/linux'' not_found) s"
proof -
  assume wf: "wf_sys s" and a: "kit_alive s" and k: "kits_flag s = ''kits''"
    and e: "sys_entries s \<in> set [sys_entries example_system, sys_entries example_after]" and c: "kit_cwd s = [''srv'']"
  have "serve_files (proc_view s (kit_cwd s)) (kits_flag s) ''GET'' ''/kit/linux'' = Some (proc_view s (kit_cwd s), not_found)"
    using e k c by (auto simp: example_defs fs_simps go_simps Let_def)
  from sys_step.kit [OF a this] have "sys_step s (EvKit ''GET'' ''/kit/linux'' not_found) (s\<lparr>kit_alive := True\<rparr>)"
    by (simp add: proc_view_def not_found_def)
  moreover have "s\<lparr>kit_alive := True\<rparr> = s" using a by (cases s) simp
  ultimately show ?thesis by simp
qed

lemma example_run: "sys_run example_system example_events example_after"
proof -
  have "chroot_handler (proc_view example_system (upload_cwd example_system)) example_req =
      (\<lparr>fs_entries = sys_entries example_after, cwd = [''srv'']\<rparr>, Reply 200 ''Received file(s) successfully.'')"
    by (simp add: example_defs fs_simps go_simps Let_def)
  from sys_step.chroot [OF this] have
    s1: "sys_step example_system (EvChroot example_req (Reply 200 ''Received file(s) successfully.'')) example_after"
    by (simp add: example_system_def example_after_def)
  have w1: "wf_sys example_after" by (simp add: wf_sys_def example_defs fs_simps go_simps)
  have k0: "sys_step example_system (EvKit ''GET'' ''/kit/linux'' not_found) example_system"
    by (rule example_kit_step [OF example_wf]) (simp_all add: example_system_def)
  have k1: "sys_step example_after (EvKit ''GET'' ''/kit/linux'' not_found) example_after"
    by (rule example_kit_step [OF w1]) (simp_all add: example_after_def example_system_def)
  show ?thesis unfolding example_events_def
    by (rule run_cons [OF k0 run_cons [OF s1 run_cons [OF k1 run_nil]]])
qed

section \<open>Properties of the two servers together\<close>

text \<open>
  C16. Every run of the two servers from a well-formed system, in any interleaving of
  their requests, keeps the store well formed as seen from both processes and leaves
  both working directories where they were.
\<close>

theorem sys_run_wf:
  "sys_run s es s' \<Longrightarrow> wf_sys s \<Longrightarrow>
   wf_sys s' \<and> upload_cwd s' = upload_cwd s \<and> kit_cwd s' = kit_cwd s"
proof (induction rule: sys_run.induct)
  case (run_nil s)
  then show ?case by simp
next
  case (run_cons s e s' es s'')
  from sys_step_wf [OF run_cons.hyps(1) run_cons.prems] run_cons.IH show ?case by simp
qed

theorem sys_run_wf_witness:
  "sys_run example_system example_events example_after \<and> wf_sys example_system \<and> wf_sys example_after"
  using sys_run_wf [OF example_run example_wf] example_run example_wf by simp

text \<open>
  C17. Containment of the whole system: in any interleaving of requests to the two
  servers, where no chroot field name climbs out of its directory and no symbolic link
  lies below \<open>chroot/\<close> or \<open>uploads/\<close> of the upload server's directory at the
  start, every node outside those two directories is, at the end, what the kit server
  saw at the start; in particular the kits it serves.
\<close>

theorem sys_run_contained:
  assumes run: "sys_run s es s'" and wf: "wf_sys s" and safe: "list_all safe_event es"
    and nc: "no_links_under (proc_view s (upload_cwd s)) (upload_cwd s @ [''chroot''])"
    and nu: "no_links_under (proc_view s (upload_cwd s)) (upload_cwd s @ [''uploads''])"
    and q: "\<not> prefix (upload_cwd s @ [''chroot'']) q" "\<not> prefix (upload_cwd s @ [''uploads'']) q"
  shows "node_at (proc_view s' (kit_cwd s')) q = node_at (proc_view s (kit_cwd s)) q"
  using sys_run_frame [OF run wf safe nc nu q] node_at_proc_view by metis

theorem sys_run_contained_witness:
  "sys_run example_system example_events example_after \<and> wf_sys example_system \<and>
   list_all safe_event example_events \<and>
   no_links_under (proc_view example_system [''srv'']) [''srv'', ''chroot''] \<and>
   no_links_under (proc_view example_system [''srv'']) [''srv'', ''uploads''] \<and>
   \<not> prefix [''srv'', ''chroot''] [''srv'', ''kits''] \<and> \<not> prefix [''srv'', ''uploads''] [''srv'', ''kits''] \<and>
   node_at (proc_view example_after [''srv'']) [''srv'', ''kits''] =
   node_at (proc_view example_system [''srv'']) [''srv'', ''kits'']"
proof -
  have safe: "list_all safe_event example_events"
    by (simp add: example_events_def example_req_def go_simps)
  have nl: "no_links_under (proc_view example_system [''srv'']) [''srv'', ''chroot'']"
    "no_links_under (proc_view example_system [''srv'']) [''srv'', ''uploads'']"
    by (simp_all add: example_defs fs_simps)
  have "node_at (proc_view example_after (kit_cwd example_after)) [''srv'', ''kits''] =
        node_at (proc_view example_system (kit_cwd example_system)) [''srv'', ''kits'']"
    by (rule sys_run_contained [OF example_run example_wf safe]) (simp_all add: example_defs fs_simps)
  with example_run example_wf safe nl show ?thesis
    by (simp add: example_after_def example_system_def)
qed

text \<open>
  The kit server's requests are invisible to the store: dropping them from any
  run leaves a run of the upload server alone that reaches the same store and the same
  working directory.
\<close>

lemma kit_requests_invisible:
  "sys_run s es s' \<Longrightarrow> wf_sys s \<Longrightarrow>
   \<exists>t. sys_run s (filter (\<lambda>e. \<not> is_kit_event e) es) t \<and> sys_entries t = sys_entries s' \<and>
       upload_cwd t = upload_cwd s'"
proof (induction rule: sys_run.induct)
  case (run_nil s)
  then show ?case using sys_run.run_nil by auto
next
  case (run_cons s e s1 es s'')
  from sys_step_wf [OF run_cons.hyps(1) run_cons.prems] have w1: "wf_sys s1" by simp
  from run_cons.IH [OF w1] obtain t1 where
    t1: "sys_run s1 (filter (\<lambda>e. \<not> is_kit_event e) es) t1" "sys_entries t1 = sys_entries s''"
      "upload_cwd t1 = upload_cwd s''"
    by blast
  show ?case
  proof (cases "is_kit_event e")
    case True
    from sys_step_kit_state [OF run_cons.prems run_cons.hyps(1) True] have
      "sys_entries s = sys_entries s1" "upload_cwd s = upload_cwd s1" by simp_all
    from sys_run_upload_transfer [OF t1(1) _ this] True t1(2,3) show ?thesis
      by (auto simp: list_all_iff)
  next
    case False
    with sys_run.run_cons [OF run_cons.hyps(1) t1(1)] t1(2,3) show ?thesis by auto
  qed
qed

text \<open>
  Every request gets an outcome: from a well-formed system, for any sequence of
  requests to the two servers there is a run that answers them one by one in that
  order (a request to the kit server after it exited is refused). The kit server's
  directory walk, which can follow symbolic links, always comes back.
\<close>

lemma sys_answers_all: "wf_sys s \<Longrightarrow> \<exists>es s'. sys_run s es s' \<and> map event_req es = reqs"
proof (induction reqs arbitrary: s)
  case Nil
  then show ?case using sys_run.run_nil by fastforce
next
  case (Cons r rs)
  from sys_step_exists [OF Cons.prems] obtain e s1 where st: "sys_step s e s1" "event_req e = r"
    by blast
  from sys_step_wf [OF st(1) Cons.prems] Cons.IH [of s1] obtain es s' where
    "sys_run s1 es s'" "map event_req es = rs"
    by blast
  with st show ?case using sys_run.run_cons [OF st(1)] by fastforce
qed

end
