(* ===== verification/Startup.thy ===== *)
theory Startup
  imports Server
begin

text \<open>
  How the two processes start. Each registers its flags in \<open>init\<close> with
  \<open>github.com/spf13/pflag\<close>; the kit server's \<open>main\<close> calls \<open>flag.Parse()\<close>, the
  upload server's \<open>main\<close> does not, so its \<open>--port\<close> keeps the default. Each then
  calls \<open>http.ListenAndServe\<close>, which binds the port and, on failure, returns the error
  that \<open>log.Fatal\<close> turns into the end of the process. The flag parser is modelled
  from pflag's \<open>parseArgs\<close>, \<open>parseLongArg\<close> and \<open>parseSingleShortArg\<close> for
  flag sets of string flags (the only kind the sources declare); a parse error ends the
  process (\<open>ExitOnError\<close>). Binding is modelled on the set of bound TCP ports:
  \<open>":p"\<close> and \<open>"0.0.0.0:p"\<close> both listen on every IPv4 address, so they
  conflict; a port that is not a decimal number is an error (service names are not
  looked up) and port 0 picks a free port.
\<close>

section \<open>pflag\<close>

record flag_def =
  fl_name :: string
  fl_short :: string
  fl_default :: string

datatype flag_error = BadSyntax string | UnknownFlag string | UnknownShorthand char
  | NeedsArgument string | HelpRequested

definition find_long :: "flag_def list \<Rightarrow> string \<Rightarrow> flag_def option" where
  "find_long fs n = find (\<lambda>f. fl_name f = n) fs"

definition find_short :: "flag_def list \<Rightarrow> char \<Rightarrow> flag_def option" where
  "find_short fs c = find (\<lambda>f. fl_short f = [c]) fs"

text \<open>
  \<open>parseLongArg\<close> for \<open>--name\<close>, \<open>--name=value\<close> or \<open>--name value\<close>: the flag
  set, the value and the arguments left.
\<close>

definition parse_long ::
  "flag_def list \<Rightarrow> string \<Rightarrow> string list \<Rightarrow> flag_error + (string \<times> string \<times> string list)" where
  "parse_long fs name args =
     (if name = [] \<or> hd name = CHR ''-'' \<or> hd name = CHR ''='' then Inl (BadSyntax (''--'' @ name))
      else
        (let n = takeWhile (\<lambda>c. c \<noteq> CHR ''='') name; rest = dropWhile (\<lambda>c. c \<noteq> CHR ''='') name in
         case find_long fs n of
           None \<Rightarrow> (if n = ''help'' then Inl HelpRequested else Inl (UnknownFlag n))
         | Some f \<Rightarrow>
             (if rest \<noteq> [] then Inr (fl_name f, tl rest, args)
              else (case args of [] \<Rightarrow> Inl (NeedsArgument n) | a # as \<Rightarrow> Inr (fl_name f, a, as)))))"

text \<open>
  \<open>parseSingleShortArg\<close> for \<open>-c\<close>, \<open>-c=value\<close>, \<open>-cvalue\<close> or \<open>-c value\<close>. A
  string flag takes the rest of the group as its value, so the loop over a group of
  shorthands ends after its first letter.
\<close>

definition parse_short ::
  "flag_def list \<Rightarrow> string \<Rightarrow> string list \<Rightarrow> flag_error + (string \<times> string \<times> string list)" where
  "parse_short fs shorthands args =
     (let c = hd shorthands in
      case find_short fs c of
        None \<Rightarrow> (if c = CHR ''h'' then Inl HelpRequested else Inl (UnknownShorthand c))
      | Some f \<Rightarrow>
          (if 2 < length shorthands \<and> shorthands ! 1 = CHR ''='' then Inr (fl_name f, drop 2 shorthands, args)
           else if 1 < length shorthands then Inr (fl_name f, drop 1 shorthands, args)
           else (case args of [] \<Rightarrow> Inl (NeedsArgument [c]) | a # as \<Rightarrow> Inr (fl_name f, a, as))))"

lemma parse_long_rest: "parse_long fs name args = Inr (n, v, rest) \<Longrightarrow> length rest \<le> length args"
  by (auto simp: parse_long_def Let_def split: if_splits option.splits list.splits)

lemma parse_short_rest: "parse_short fs sh args = Inr (n, v, rest) \<Longrightarrow> length rest \<le> length args"
  by (auto simp: parse_short_def Let_def split: if_splits option.splits list.splits)

text \<open>
  \<open>parseArgs\<close> with interspersed arguments: a word that is not a flag is skipped,
  \<open>--\<close> ends the flags, a flag sets its value (the last setting wins).
\<close>

function parse_flags ::
  "flag_def list \<Rightarrow> (string \<times> string) list \<Rightarrow> string list \<Rightarrow> flag_error + (string \<times> string) list" where
  "parse_flags fs vals [] = Inr vals"
| "parse_flags fs vals (s # args) =
     (if length s < 2 \<or> hd s \<noteq> CHR ''-'' then parse_flags fs vals args
      else if s ! 1 = CHR ''-'' then
        (if length s = 2 then Inr vals
         else (case parse_long fs (drop 2 s) args of
                 Inl e \<Rightarrow> Inl e
               | Inr (n, v, rest) \<Rightarrow> parse_flags fs (AList.update n v vals) rest))
      else (case parse_short fs (drop 1 s) args of
              Inl e \<Rightarrow> Inl e
            | Inr (n, v, rest) \<Rightarrow> parse_flags fs (AList.update n v vals) rest))"
  by pat_completeness auto
termination
  by (relation "measure (\<lambda>(fs, vals, args). length args)")
    (auto dest: parse_long_rest parse_short_rest)

definition flag_value :: "flag_def list \<Rightarrow> (string \<times> string) list \<Rightarrow> string \<Rightarrow> string" where
  "flag_value fs vals n =
     (case map_of vals n of Some v \<Rightarrow> v | None \<Rightarrow> (case find_long fs n of Some f \<Rightarrow> fl_default f | None \<Rightarrow> []))"

section \<open>The two flag sets and main functions\<close>

text \<open>\<open>src/main.go\<close>'s \<open>init\<close>: \<open>--port\<close>, default \<open>8080\<close>, no shorthand.\<close>

definition upload_flags :: "flag_def list" where
  "upload_flags = [\<lparr>fl_name = ''port'', fl_short = [], fl_default = ''8080''\<rparr>]"

text \<open>\<open>src/cmd/redkit/main.go\<close>'s \<open>init\<close>: \<open>--port/-p\<close> and \<open>--kits/-k\<close>.\<close>

definition kit_flags :: "flag_def list" where
  "kit_flags = [\<lparr>fl_name = ''port'', fl_short = ''p'', fl_default = ''8080''\<rparr>,
                \<lparr>fl_name = ''kits'', fl_short = ''k'', fl_default = ''kits''\<rparr>]"

text \<open>
  The address the upload server's \<open>main\<close> listens on: \<open>":" + lport\<close>, with
  \<open>lport\<close> as \<open>init\<close> left it, since \<open>flag.Parse\<close> is never called; the command
  line \<open>args\<close> play no part.
\<close>

definition upload_addr :: "string list \<Rightarrow> string" where
  "upload_addr args = CHR '':'' # flag_value upload_flags [] ''port''"

text \<open>The kit server's \<open>main\<close>: parse, then listen on \<open>"0.0.0.0:" + port\<close>; the kits directory.\<close>

definition kit_config :: "string list \<Rightarrow> flag_error + (string \<times> string)" where
  "kit_config args =
     (case parse_flags kit_flags [] args of
        Inl e \<Rightarrow> Inl e
      | Inr vals \<Rightarrow> Inr (''0.0.0.0:'' @ flag_value kit_flags vals ''port'', flag_value kit_flags vals ''kits''))"

section \<open>Binding the port\<close>

datatype net_error = EADDRINUSE | UnknownPort string

definition addr_port :: "string \<Rightarrow> string" where
  "addr_port addr = rev (takeWhile (\<lambda>c. c \<noteq> CHR '':'') (rev addr))"

definition parse_port :: "string \<Rightarrow> nat option" where
  "parse_port s =
     (if list_all (\<lambda>c. CHR ''0'' \<le> c \<and> c \<le> CHR ''9'') s
      then (let n = foldl (\<lambda>a c. 10 * a + (of_char c - 48)) 0 s in if n \<le> 65535 then Some n else None)
      else None)"

definition net_listen :: "nat list \<Rightarrow> string \<Rightarrow> net_error + nat list" where
  "net_listen bound addr =
     (case parse_port (addr_port addr) of
        None \<Rightarrow> Inl (UnknownPort (addr_port addr))
      | Some p \<Rightarrow> (if p = 0 then Inr bound else if p \<in> set bound then Inl EADDRINUSE else Inr (p # bound)))"

datatype exit_reason = FlagExit flag_error | FatalListen net_error

datatype proc_status = Serving | Exited exit_reason

definition upload_start :: "nat list \<Rightarrow> string list \<Rightarrow> exit_reason + nat list" where
  "upload_start bound args =
     (case net_listen bound (upload_addr args) of Inl e \<Rightarrow> Inl (FatalListen e) | Inr b \<Rightarrow> Inr b)"

definition kit_start :: "nat list \<Rightarrow> string list \<Rightarrow> exit_reason + nat list" where
  "kit_start bound args =
     (case kit_config args of
        Inl e \<Rightarrow> Inl (FlagExit e)
      | Inr (addr, kits) \<Rightarrow> (case net_listen bound addr of Inl e \<Rightarrow> Inl (FatalListen e) | Inr b \<Rightarrow> Inr b))"

definition status_of :: "exit_reason + nat list \<Rightarrow> proc_status" where
  "status_of r = (case r of Inl e \<Rightarrow> Exited e | Inr _ \<Rightarrow> Serving)"

definition bound_after :: "exit_reason + nat list \<Rightarrow> nat list" where
  "bound_after r = (case r of Inl _ \<Rightarrow> [] | Inr b \<Rightarrow> b)"

text \<open>Both servers started on one host, the upload server first or second.\<close>

definition start_servers :: "bool \<Rightarrow> string list \<Rightarrow> string list \<Rightarrow> proc_status \<times> proc_status" where
  "start_servers upload_first uargs kargs =
     (if upload_first then
        (let u = upload_start [] uargs in (status_of u, status_of (kit_start (bound_after u) kargs)))
      else
        (let k = kit_start [] kargs in (status_of (upload_start (bound_after k) uargs), status_of k)))"

text \<open>
  The system of \<open>Server\<close> right after both servers started, the upload server first:
  the kit server runs when it bound its port, with its parsed \<open>--kits\<close> value.
\<close>

definition sys_init :: "(apath \<times> node) list \<Rightarrow> apath \<Rightarrow> apath \<Rightarrow> string list \<Rightarrow> string list \<Rightarrow> system" where
  "sys_init entries ud kd uargs kargs =
     \<lparr>sys_entries = entries, upload_cwd = ud, kit_cwd = kd,
      kit_alive = (snd (start_servers True uargs kargs) = Serving),
      kits_flag = (case kit_config kargs of Inr (_, k) \<Rightarrow> k | Inl _ \<Rightarrow> ''kits'')\<rparr>"

lemmas start_defs = start_servers_def upload_start_def kit_start_def upload_addr_def flag_value_def
  upload_flags_def kit_flags_def find_long_def find_short_def net_listen_def addr_port_def parse_port_def
  status_of_def bound_after_def

section \<open>The upload server ignores its command line\<close>

lemma upload_start_eq:
  "upload_start bound uargs = (if 8080 \<in> set bound then Inl (FatalListen EADDRINUSE) else Inr (8080 # bound))"
  by (simp add: start_defs)

lemma kit_start_8080:
  "kit_config kargs = Inr (addr, kits) \<Longrightarrow> parse_port (addr_port addr) = Some 8080 \<Longrightarrow>
   kit_start bound kargs = (if 8080 \<in> set bound then Inl (FatalListen EADDRINUSE) else Inr (8080 # bound))"
  by (simp add: kit_start_def net_listen_def)

lemma default_kit_config: "kit_config [] = Inr (''0.0.0.0:8080'', ''kits'')"
  by (simp add: kit_config_def start_defs)

section \<open>Properties of start-up\<close>

text \<open>
  C22. The two servers cannot both start on one host while the kit server's port is
  8080, its default: whichever starts second fails to bind and \<open>log.Fatal\<close> ends it.
  No command line of the upload server changes that, since its \<open>main\<close> never calls
  \<open>flag.Parse\<close> and listens on \<open>:8080\<close> whatever \<open>--port\<close> says.
\<close>

theorem port_conflict:
  assumes k: "kit_config kargs = Inr (addr, kits)" and p: "parse_port (addr_port addr) = Some 8080"
  shows "start_servers True uargs kargs = (Serving, Exited (FatalListen EADDRINUSE)) \<and>
         start_servers False uargs kargs = (Exited (FatalListen EADDRINUSE), Serving)"
  using kit_start_8080 [OF k p] by (simp add: start_servers_def upload_start_eq status_of_def bound_after_def)

theorem port_conflict_witness:
  "kit_config [''-p'', ''08080''] = Inr (''0.0.0.0:08080'', ''kits'') \<and>
   parse_port (addr_port ''0.0.0.0:08080'') = Some 8080 \<and>
   start_servers True [''--port'', ''9000''] [''-p'', ''08080''] = (Serving, Exited (FatalListen EADDRINUSE)) \<and>
   start_servers False [''--port'', ''9000''] [''-p'', ''08080''] = (Exited (FatalListen EADDRINUSE), Serving)"
proof -
  have k: "kit_config [''-p'', ''08080''] = Inr (''0.0.0.0:08080'', ''kits'')"
    by (simp add: kit_config_def start_defs parse_short_def)
  have p: "parse_port (addr_port ''0.0.0.0:08080'') = Some 8080" by (simp add: start_defs)
  from port_conflict [OF k p, of "[''--port'', ''9000'']"] k p show ?thesis by simp
qed

text \<open>
  C23. The kit server's command line: \<open>--kits=DIR\<close> and \<open>-p PORT\<close> set the kits
  directory and the port to exactly the strings given, whatever they are; a flag left
  out keeps its default.
\<close>

theorem kit_config_flags:
  "kit_config [''--kits='' @ k, ''-p'', p] = Inr (''0.0.0.0:'' @ p, k) \<and>
   kit_config [''-k'', k] = Inr (''0.0.0.0:8080'', k)"
  by (simp add: kit_config_def start_defs parse_long_def parse_short_def)

text \<open>
  Start-up and serving together: when the upload server starts first and the
  kit server's port is 8080, the system starts with the kit server already gone, and
  in no run from there does the kit server serve a request.
\<close>

lemma kit_never_serves:
  assumes k: "kit_config kargs = Inr (addr, kits)" and p: "parse_port (addr_port addr) = Some 8080"
    and run: "sys_run (sys_init entries ud kd uargs kargs) es s'"
  shows "\<not> kit_alive (sys_init entries ud kd uargs kargs) \<and> \<not> list_ex kit_served es"
proof -
  have "\<not> kit_alive (sys_init entries ud kd uargs kargs)"
    using kit_start_8080 [OF k p]
    by (simp add: sys_init_def start_servers_def upload_start_eq status_of_def bound_after_def)
  with sys_run_dead [OF run] show ?thesis by simp
qed

end
