(* ===== verification/IoFs.thy ===== *)
theory IoFs
  imports Kit
begin

text \<open>
  The \<open>io/fs\<close> side of the model: \<open>fs.ValidPath\<close>, the check every \<open>fs.FS\<close>
  applies to the names it is given; \<open>os.ReadFile\<close>; the interface \<open>FS\<close> that
  \<open>src/pkg/chroot/fs.go\<close> declares, as a record of its methods (\<open>Open\<close> of
  \<open>fs.FS\<close>, \<open>ReadDir\<close> of \<open>fs.ReadDirFS\<close>, \<open>ReadFile\<close> of
  \<open>fs.ReadFileFS\<close>); and \<open>os.DirFS\<close>, the implementation the chroot package stores
  in \<open>FileSystem.Root\<close>, which rejects an invalid name with \<open>ErrInvalid\<close> and
  otherwise calls the \<open>os\<close> function on \<open>dir + "/" + name\<close>. Library code, modelled
  from the Go sources of \<open>io/fs\<close> and \<open>os\<close>; UTF-8 validity of names is not
  modelled (every name is valid UTF-8).
\<close>

section \<open>fs.ValidPath\<close>

text \<open>
  The loop of \<open>ValidPath\<close>: take the element up to the next slash, reject it when it
  is empty, \<open>.\<close> or \<open>..\<close>, accept at the end of the name, else go on after the
  slash. The name \<open>.\<close> alone is valid.
\<close>

function valid_elems :: "string \<Rightarrow> bool" where
  "valid_elems name =
     (let elem = takeWhile (\<lambda>c. c \<noteq> slash) name; rest = dropWhile (\<lambda>c. c \<noteq> slash) name in
      if elem = [] \<or> elem = ''.'' \<or> elem = ''..'' then False
      else if rest = [] then True
      else valid_elems (tl rest))"
  by pat_completeness auto
termination
proof (relation "measure length")
  fix name :: string and elem rest
  assume "rest = dropWhile (\<lambda>c. c \<noteq> slash) name" "rest \<noteq> []"
  then have "length rest \<le> length name" "0 < length rest"
    using length_dropWhile_le [of "\<lambda>c. c \<noteq> slash" name] by auto
  then show "(tl rest, name) \<in> measure length" by (simp only: in_measure length_tl)
qed simp

declare valid_elems.simps [simp del]

definition valid_path :: "string \<Rightarrow> bool" where
  "valid_path name \<longleftrightarrow> name = ''.'' \<or> valid_elems name"

section \<open>os.ReadFile\<close>

text \<open>Reading a directory fails with \<open>EISDIR\<close> at the first \<open>Read\<close>.\<close>

definition os_read_file :: "fs_state \<Rightarrow> string \<Rightarrow> os_error + bytes" where
  "os_read_file st name =
     (case resolve st True name of
        Inl e \<Rightarrow> Inl e
      | Inr p \<Rightarrow>
          (case node_at st p of
             Some (File c) \<Rightarrow> Inr c
           | Some Dir \<Rightarrow> Inl EISDIR
           | _ \<Rightarrow> Inl ENOENT))"

section \<open>The interface FS and os.DirFS\<close>

record fs_iface =
  fs_open :: "string \<Rightarrow> os_error + os_file"
  fs_read_dir :: "string \<Rightarrow> os_error + (fname \<times> bool) list"
  fs_read_file :: "string \<Rightarrow> os_error + bytes"

text \<open>
  \<open>os.DirFS(dir)\<close> on the current store: an empty \<open>dir\<close> or an invalid name is
  \<open>ErrInvalid\<close>; otherwise the name is opened as \<open>dir + "/" + name\<close>
  (\<open>dirfs_name\<close>).
\<close>

definition dirfs_call :: "string \<Rightarrow> (string \<Rightarrow> os_error + 'a) \<Rightarrow> string \<Rightarrow> os_error + 'a" where
  "dirfs_call dir f name = (if dir = [] \<or> \<not> valid_path name then Inl EINVAL else f (dirfs_name dir name))"

definition dir_fs :: "fs_state \<Rightarrow> string \<Rightarrow> fs_iface" where
  "dir_fs st dir =
     \<lparr>fs_open = dirfs_call dir (os_open st), fs_read_dir = dirfs_call dir (os_read_dir st),
      fs_read_file = dirfs_call dir (os_read_file st)\<rparr>"

section \<open>Valid names are paths of plain names\<close>

lemma valid_elems_split: "valid_elems name \<longleftrightarrow> list_all plain_name (split_on slash name)"
proof (induction name rule: valid_elems.induct)
  case (1 name)
  let ?e = "takeWhile (\<lambda>c. c \<noteq> slash) name" and ?r = "dropWhile (\<lambda>c. c \<noteq> slash) name"
  have en: "slash \<notin> set ?e" by (auto dest: set_takeWhileD)
  have nm: "name = ?e @ ?r" by simp
  show ?case
  proof (cases ?r)
    case Nil
    then have ns: "slash \<notin> set name" by (auto simp: dropWhile_eq_Nil_conv)
    then have e: "?e = name" by (auto simp: takeWhile_eq_all_conv)
    have sp: "split_on slash name = [name]" using ns by (rule split_on_no_sep_eq)
    show ?thesis unfolding valid_elems.simps [of name] Let_def e Nil
      using sp ns by (simp add: plain_name_def)
  next
    case (Cons c r')
    then have c: "c = slash" using hd_dropWhile [of "\<lambda>c. c \<noteq> slash" name] by fastforce
    have "split_on slash name = split_on slash ?e @ split_on slash r'"
      using nm Cons c by (metis split_on_append_sep)
    then have "split_on slash name = ?e # split_on slash r'" using en by (simp add: split_on_no_sep_eq)
    with Cons "1.IH" [OF refl refl] en show ?thesis
      by (auto simp: valid_elems.simps [of name] plain_name_def Let_def)
  qed
qed

lemma valid_path_rel_name: "list_all plain_name r \<Longrightarrow> valid_path (rel_name r)"
proof (cases "r = []")
  case True
  then show ?thesis by (simp add: valid_path_def rel_name_def)
next
  case False
  moreover assume "list_all plain_name r"
  ultimately show ?thesis using split_rel_name [of r] by (simp add: valid_path_def valid_elems_split)
qed

end
