(* ===== verification/ChrootPkg.thy ===== *)
theory ChrootPkg
  imports OsFs
begin

text \<open>
  The package \<open>src/pkg/chroot\<close>: a \<open>FileSystem\<close> rooted at a directory of the
  operating system, made by \<open>New\<close>, with \<open>CreateFile\<close> and
  \<open>CreateDirectory\<close> acting below the root. The \<open>fs.FS\<close> value \<open>os.DirFS\<close>
  returns is recorded by the directory name it opens files under; the logger writes to
  standard output only and is not modelled. A panic (\<open>panic(err)\<close> or
  \<open>Unwrap\<close>) is the value \<open>Inl err\<close>. The interface \<open>FS\<close> of \<open>fs.go\<close>
  (\<open>ReadDirFS\<close> and \<open>ReadFileFS\<close>) is declared but has no implementation or use
  in the package; \<open>IoFs\<close> models it and \<open>ChrootFS\<close> reads through \<open>Root\<close>.
\<close>

section \<open>FileSystem\<close>

datatype log_verbosity = DEFAULT | INFO | DEBUG

record file_system =
  fsys_root :: string
  fsys_verbosity :: log_verbosity
  root_name :: string

text \<open>\<open>New\<close>: \<open>os.Mkdir\<close> the root, accepting \<open>ErrExist\<close>; any other error panics.\<close>

definition chroot_new :: "fs_state \<Rightarrow> string \<Rightarrow> os_error + (fs_state \<times> file_system)" where
  "chroot_new st dirpath =
     (let fsys = \<lparr>fsys_root = dirpath, fsys_verbosity = DEFAULT, root_name = dirpath\<rparr> in
      case os_mkdir st dirpath of
        Inr st' \<Rightarrow> Inr (st', fsys)
      | Inl EEXIST \<Rightarrow> Inr (st, fsys)
      | Inl e \<Rightarrow> Inl e)"

text \<open>\<open>CreateFile\<close>: \<open>os.Create\<close> of the joined path; \<open>data\<close> is not used.\<close>

definition create_file :: "fs_state \<Rightarrow> file_system \<Rightarrow> string \<Rightarrow> bytes \<Rightarrow> os_error + (fs_state \<times> os_file)" where
  "create_file st fsys filepath data = os_create st (path_join [root_name fsys, filepath])"

text \<open>\<open>CreateDirectory\<close>: \<open>os.MkdirAll\<close> of the joined path; an error panics.\<close>

definition create_directory :: "fs_state \<Rightarrow> file_system \<Rightarrow> string \<Rightarrow> os_error + fs_state" where
  "create_directory st fsys dirpath = mkdir_all st (path_join [root_name fsys, dirpath])"

section \<open>MkdirAll on a path of plain names\<close>

text \<open>
  \<open>os.MkdirAll\<close> of a relative path of plain names, each level of which is absent
  or a directory: it creates the missing levels, keeps the existing ones, changes no
  other node, and keeps the store well formed.
\<close>

lemma mkdir_all_parent_snoc:
  assumes "slash \<notin> set x" "x \<noteq> []"
  shows "mkdir_all_parent (y @ slash # x) = y" and "mkdir_all_parent x = []"
proof -
  have h: "hd (rev x) \<noteq> slash" using assms by (metis last_in_set hd_rev)
  have d1: "dropWhile (\<lambda>c. c = slash) (rev x @ zs) = rev x @ zs" for zs
    using h assms(2) by (cases "rev x") auto
  have d2: "dropWhile (\<lambda>c. c \<noteq> slash) (rev x @ zs) = dropWhile (\<lambda>c. c \<noteq> slash) zs" for zs
    by (rule dropWhile_append2) (use assms(1) in auto)
  show "mkdir_all_parent (y @ slash # x) = y"
    using d1 [of "slash # rev y"] d2 [of "slash # rev y"] by (simp add: mkdir_all_parent_def)
  show "mkdir_all_parent x = []"
  proof -
    have e: "dropWhile (\<lambda>c. c \<noteq> slash) (rev x) = []"
      using d2 [of "[]"] by (simp only: append.right_neutral dropWhile.simps(1))
    show ?thesis using d1 [of "[]"] e by (simp add: mkdir_all_parent_def del: dropWhile_eq_Nil_conv)
  qed
qed

lemma walk_plain_path:
  "list_all plain_name q \<Longrightarrow> (\<forall>k. 0 < k \<longrightarrow> k \<le> length q \<longrightarrow> \<not> is_link (node_at st (c @ take k q))) \<Longrightarrow>
   walk st fuel follow c q = Inr p \<Longrightarrow> p = c @ q"
proof (induction q arbitrary: c)
  case Nil
  then show ?case by (simp add: walk_simps)
next
  case (Cons s q)
  from Cons.prems(1) have ps: "plain_name s" and pq: "list_all plain_name q" by simp_all
  have nl: "\<not> is_link (node_at st (c @ [s]))" using Cons.prems(2) [rule_format, of 1] by simp
  have nl': "\<forall>k. 0 < k \<longrightarrow> k \<le> length q \<longrightarrow> \<not> is_link (node_at st ((c @ [s]) @ take k q))"
    using Cons.prems(2) by (auto dest: spec [of _ "Suc _"])
  have q0: "list_all (\<lambda>r. r = []) q \<Longrightarrow> q = []" using pq by (cases q) (auto simp: plain_name_def)
  show ?case
    using Cons.prems(3) ps nl Cons.IH [OF pq nl'] q0
    by (auto simp: plain_name_def walk_simps is_link_def split: option.splits node.splits if_splits)
qed

lemma resolve_join_plain:
  assumes ne: "ns \<noteq> []" and pl: "list_all plain_name ns"
  shows "resolve st fl (join_with slash ns) = walk st max_symlinks fl (cwd st) ns"
proof -
  obtain n ms where ns: "ns = n # ms" using ne by (cases ns) auto
  with pl have pn: "plain_name n" by simp
  then have nr: "n \<noteq> [] \<and> hd n \<noteq> slash" by (cases n) (auto simp: plain_name_def)
  have h: "hd (join_with slash ns) = hd n \<and> join_with slash ns \<noteq> []"
    using ns nr by (cases ms) auto
  then have "join_with slash ns \<noteq> [] \<and> \<not> is_rooted (join_with slash ns)"
    using nr by (simp add: is_rooted_def)
  moreover have "split_on slash (join_with slash ns) = ns"
    using ne pl by (intro split_on_join) (auto simp: list_all_iff plain_name_def)
  ultimately show ?thesis by (simp add: resolve_def)
qed

abbreviation dirs_open :: "fs_state \<Rightarrow> apath \<Rightarrow> fname list \<Rightarrow> bool" where
  "dirs_open st c ns \<equiv> \<forall>k. 0 < k \<longrightarrow> k \<le> length ns \<longrightarrow>
     node_at st (c @ take k ns) = None \<or> node_at st (c @ take k ns) = Some Dir"

lemma mkdir_all_plain:
  "wf_fs st \<Longrightarrow> ns \<noteq> [] \<Longrightarrow> list_all plain_name ns \<Longrightarrow> dirs_open st (cwd st) ns \<Longrightarrow>
   \<exists>st'. mkdir_all st (join_with slash ns) = Inr st' \<and> wf_fs st' \<and> cwd st' = cwd st \<and>
     (\<forall>k. 0 < k \<longrightarrow> k \<le> length ns \<longrightarrow> node_at st' (cwd st @ take k ns) = Some Dir) \<and>
     (\<forall>q. (\<forall>k. q \<noteq> cwd st @ take k ns) \<longrightarrow> node_at st' q = node_at st q)"
proof (induction ns arbitrary: st rule: rev_induct)
  case Nil
  then show ?case by simp
next
  case (snoc x ys)
  let ?p = "cwd st @ ys @ [x]"
  let ?path = "join_with slash (ys @ [x])"
  from snoc.prems(3) have px: "plain_name x" and py: "list_all plain_name ys" by simp_all
  have nl: "\<forall>k. 0 < k \<longrightarrow> k \<le> length (ys @ [x]) \<longrightarrow> \<not> is_link (node_at st (cwd st @ take k (ys @ [x])))"
  proof (intro allI impI)
    fix k assume "0 < k" "k \<le> length (ys @ [x])"
    with snoc.prems(4) have "node_at st (cwd st @ take k (ys @ [x])) = None \<or>
        node_at st (cwd st @ take k (ys @ [x])) = Some Dir" by blast
    then show "\<not> is_link (node_at st (cwd st @ take k (ys @ [x])))" by (auto simp: is_link_def)
  qed
  have res: "resolve st fl ?path = walk st max_symlinks fl (cwd st) (ys @ [x])" for fl
    using resolve_join_plain [OF _ snoc.prems(3)] by simp
  have last: "node_at st ?p = None \<or> node_at st ?p = Some Dir"
    using snoc.prems(4) [rule_format, of "Suc (length ys)"] by simp
  show ?case
  proof (cases "node_at st ?p = Some Dir")
    case True
    have "walk st max_symlinks True (cwd st) (ys @ [x]) = Inr ?p"
      using walk_real [OF snoc.prems(1) _ snoc.prems(3)] True by simp
    then have "mkdir_all st ?path = Inr st"
      using True res [of True] by (subst mkdir_all.simps) (simp add: os_stat_def)
    moreover have "node_at st (cwd st @ take k (ys @ [x])) = Some Dir" if "k \<le> length (ys @ [x])" for k
    proof (cases "k = length (ys @ [x])")
      case False
      have pre: "prefix (cwd st @ take k (ys @ [x])) ?p"
        using take_is_prefix [of k "ys @ [x]"] by (simp only: same_prefix_prefix)
      have neq: "cwd st @ take k (ys @ [x]) \<noteq> ?p"
        using False that by (auto dest: arg_cong [of _ _ length])
      show ?thesis by (rule wf_fs_ancestor [OF snoc.prems(1) _ pre neq]) (simp add: True)
    qed (use True in simp)
    ultimately show ?thesis using snoc.prems(1) by auto
  next
    case False
    with last have none: "node_at st ?p = None" by simp
    have stat: "\<exists>e. os_stat st ?path = Inl e"
      using walk_plain_path [OF snoc.prems(3) nl, of max_symlinks True] none res [of True]
      by (auto simp: os_stat_def split: sum.splits)
    show ?thesis
    proof (cases "ys = []")
      case True
      have mk: "os_mkdir st x = Inr (set_node st (cwd st @ [x]) Dir)"
        using os_mkdir_plain [OF px, of st] none True by simp
      have par: "mkdir_all_parent x = []"
        using mkdir_all_parent_snoc(2) [of x] px by (simp add: plain_name_def)
      have "mkdir_all st ?path = Inr (set_node st (cwd st @ [x]) Dir)"
        using stat mk par True by (subst mkdir_all.simps) (auto split: sum.splits)
      moreover have "wf_fs (set_node st (cwd st @ [x]) Dir)" using os_mkdir_wf [OF snoc.prems(1) mk] .
      ultimately show ?thesis using True
        by (auto simp: node_at_set_node take_Suc_conv_app_nth less_Suc_eq_le dest: spec [of _ 1])
    next
      case ne: False
      have par: "mkdir_all_parent ?path = join_with slash ys"
        using mkdir_all_parent_snoc(1) [of x "join_with slash ys"] px ne
        by (simp add: plain_name_def join_with_snoc)
      have open_ys: "dirs_open st (cwd st) ys"
      proof (intro allI impI)
        fix k assume k: "0 < k" "k \<le> length ys"
        then show "node_at st (cwd st @ take k ys) = None \<or> node_at st (cwd st @ take k ys) = Some Dir"
          using snoc.prems(4) [rule_format, of k] by simp
      qed
      obtain st1 where m1: "mkdir_all st (join_with slash ys) = Inr st1" and w1: "wf_fs st1"
        and c1: "cwd st1 = cwd st"
        and d1: "\<forall>k. 0 < k \<longrightarrow> k \<le> length ys \<longrightarrow> node_at st1 (cwd st @ take k ys) = Some Dir"
        and f1: "\<forall>q. (\<forall>k. q \<noteq> cwd st @ take k ys) \<longrightarrow> node_at st1 q = node_at st q"
        using snoc.IH [OF snoc.prems(1) ne py open_ys] by blast
      have pnot: "\<forall>k. ?p \<noteq> cwd st @ take k ys" by (auto dest: arg_cong [of _ _ length])
      have n1: "node_at st1 ?p = None" using f1 pnot none by simp
      have dys: "node_at st1 (cwd st1 @ ys) = Some Dir" using d1 [rule_format, of "length ys"] ne c1 by simp
      have "walk st1 max_symlinks False (cwd st1) (ys @ [x]) = walk st1 max_symlinks False (cwd st1 @ ys) [x]"
        using walk_real_append [OF w1 dys py] .
      also have "\<dots> = Inr ?p" using n1 px c1 by (simp add: walk_simps plain_name_def)
      finally have mk: "os_mkdir st1 ?path = Inr (set_node st1 ?p Dir)"
        using resolve_join_plain [OF _ snoc.prems(3), of st1 False] n1 c1 by (simp add: os_mkdir_def)
      have jne: "join_with slash ys \<noteq> []"
        using ne py by (cases ys) (auto simp: join_with_Nil_iff plain_name_def)
      have run: "mkdir_all st ?path = Inr (set_node st1 ?p Dir)"
        using stat par m1 jne mk by (subst mkdir_all.simps) (auto split: sum.splits)
      have w2: "wf_fs (set_node st1 ?p Dir)" by (rule os_mkdir_wf [OF w1 mk])
      have "node_at (set_node st1 ?p Dir) (cwd st @ take k (ys @ [x])) = Some Dir"
        if "0 < k" "k \<le> length (ys @ [x])" for k
        using that d1 pnot by (cases "k = Suc (length ys)") (auto simp: node_at_set_node)
      moreover have "node_at (set_node st1 ?p Dir) q = node_at st q" if "\<forall>k. q \<noteq> cwd st @ take k (ys @ [x])" for q
      proof -
        have "q \<noteq> ?p" using that [rule_format, of "Suc (length ys)"] by simp
        moreover have "\<forall>k. q \<noteq> cwd st @ take k ys"
        proof
          fix k
          show "q \<noteq> cwd st @ take k ys"
            using that [rule_format, of "min k (length ys)"] by (simp add: min_def split: if_splits)
        qed
        ultimately show ?thesis using f1 by (simp add: node_at_set_node)
      qed
      ultimately show ?thesis using run w2 c1 by auto
    qed
  qed
qed

lemma path_join_plain:
  assumes r: "plain_name r" and ns: "ns \<noteq> []" "list_all plain_name ns"
  shows "path_join [r, join_with slash ns] = join_with slash (r # ns)"
proof -
  have r0: "r \<noteq> [] \<and> hd r \<noteq> slash" using r by (cases r) (auto simp: plain_name_def)
  have j: "r @ slash # join_with slash ns = join_with slash (r # ns)" using ns(1) by (simp add: join_with_Cons)
  have sp: "split_on slash (join_with slash (r # ns)) = r # ns"
    using r ns by (intro split_on_join) (auto simp: list_all_iff plain_name_def)
  have nr: "\<not> is_rooted (join_with slash (r # ns))" using r0 j [symmetric] by (simp add: is_rooted_def)
  have ce: "clean_elems (join_with slash (r # ns)) = r # ns"
    using r ns(2) by (simp add: clean_elems_def sp nr clean_segs_def foldl_clean_step_plain)
  show ?thesis using r0 ce nr j by (simp add: path_join_two clean_eq [of "join_with slash (r # ns)"])
qed

text \<open>\<open>Join(r, "../" + n)\<close> cancels \<open>r\<close> against the \<open>..\<close>.\<close>

lemma path_join_up:
  assumes r: "plain_name r" and n: "plain_name n"
  shows "path_join [r, ''../'' @ n] = n"
proof -
  have r0: "r \<noteq> []" using r by (simp add: plain_name_def)
  have e: "''../'' @ n = ''..'' @ slash # n" by simp
  have sp: "split_on slash (r @ slash # ''../'' @ n) = [r, ''..'', n]"
    using n by (simp only: e split_on_plain_sep [OF r]) (simp add: split_on_append_sep split_on_no_sep_eq plain_name_def)
  have nr: "\<not> is_rooted (r @ slash # ''../'' @ n)" by (rule plain_name_sep_not_rooted [OF r])
  have "clean_segs False [r, ''..'', n] = [n]"
    using r n by (simp add: clean_segs_def clean_step_dotdot_pop)
  then show ?thesis
    using r0 sp nr n by (simp add: path_join_two clean_def Let_def plain_name_def)
qed

section \<open>Properties of the package\<close>

text \<open>
  C10. \<open>New\<close> on a plain directory name never panics: it creates the directory when
  nothing exists under the name, and otherwise accepts whatever is there (\<open>Mkdir\<close>
  reports \<open>ErrExist\<close> for a regular file as well), leaving the store unchanged. In
  both cases the file system is rooted at the name, with verbosity \<open>DEFAULT\<close>.
\<close>

theorem chroot_new_result:
  "plain_name d \<Longrightarrow>
   chroot_new st d =
     Inr (if node_at st (cwd st @ [d]) = None then set_node st (cwd st @ [d]) Dir else st,
          \<lparr>fsys_root = d, fsys_verbosity = DEFAULT, root_name = d\<rparr>)"
  by (simp add: chroot_new_def os_mkdir_plain)

theorem chroot_new_result_witness:
  "plain_name ''chroot'' \<and>
   chroot_new \<lparr>fs_entries = [([''srv''], Dir), ([''srv'', ''chroot''], File [7])], cwd = [''srv'']\<rparr> ''chroot'' =
     Inr (\<lparr>fs_entries = [([''srv''], Dir), ([''srv'', ''chroot''], File [7])], cwd = [''srv'']\<rparr>,
          \<lparr>fsys_root = ''chroot'', fsys_verbosity = DEFAULT, root_name = ''chroot''\<rparr>)"
proof -
  have p: "plain_name ''chroot''" by (simp add: plain_name_def)
  show ?thesis using chroot_new_result [OF p] p by (simp add: fs_simps)
qed

text \<open>
  C11. \<open>CreateFile\<close> leaves the file it creates empty, whatever \<open>data\<close> it is
  given, although its comment says it fills the file with the data.
\<close>

theorem create_file_ignores_data:
  "create_file st fsys filepath data = Inr (st', f) \<Longrightarrow> node_at st' (f_path f) = Some (File [])"
  by (auto simp: create_file_def os_create_def node_at_set_node_same
      split: sum.splits option.splits node.splits if_splits)

theorem create_file_ignores_data_witness:
  "create_file \<lparr>fs_entries = [([''chroot''], Dir)], cwd = []\<rparr>
     \<lparr>fsys_root = ''chroot'', fsys_verbosity = DEFAULT, root_name = ''chroot''\<rparr> ''a'' [1, 2] =
     Inr (\<lparr>fs_entries = [([''chroot''], Dir), ([''chroot'', ''a''], File [])], cwd = []\<rparr>,
          \<lparr>f_name = ''chroot/a'', f_path = [''chroot'', ''a'']\<rparr>) \<and>
   node_at \<lparr>fs_entries = [([''chroot''], Dir), ([''chroot'', ''a''], File [])], cwd = []\<rparr> [''chroot'', ''a''] =
     Some (File [])"
proof -
  have r: "create_file \<lparr>fs_entries = [([''chroot''], Dir)], cwd = []\<rparr>
     \<lparr>fsys_root = ''chroot'', fsys_verbosity = DEFAULT, root_name = ''chroot''\<rparr> ''a'' [1, 2] =
     Inr (\<lparr>fs_entries = [([''chroot''], Dir), ([''chroot'', ''a''], File [])], cwd = []\<rparr>,
          \<lparr>f_name = ''chroot/a'', f_path = [''chroot'', ''a'']\<rparr>)"
    by (simp add: create_file_def fs_simps go_simps)
  from create_file_ignores_data [OF r] r show ?thesis by simp
qed

text \<open>
  C12. \<open>CreateDirectory\<close> of a relative path of plain names below a root with a plain
  name, every level of which is absent or a directory, succeeds, leaves every level a
  directory, changes no other node and keeps the store well formed: intermediate
  directories are created and existing ones accepted quietly.
\<close>

theorem create_directory_creates:
  assumes wf: "wf_fs st" and r: "plain_name (root_name fsys)"
    and ns: "ns \<noteq> []" "list_all plain_name ns"
    and op: "dirs_open st (cwd st) (root_name fsys # ns)"
  shows "\<exists>st'. create_directory st fsys (join_with slash ns) = Inr st' \<and> wf_fs st' \<and>
     (\<forall>k. 0 < k \<longrightarrow> k \<le> Suc (length ns) \<longrightarrow> node_at st' (cwd st @ take k (root_name fsys # ns)) = Some Dir) \<and>
     (\<forall>q. (\<forall>k. q \<noteq> cwd st @ take k (root_name fsys # ns)) \<longrightarrow> node_at st' q = node_at st q)"
  using mkdir_all_plain [OF wf _ _ op] r ns
  by (simp add: create_directory_def path_join_plain) blast

theorem create_directory_creates_witness:
  "wf_fs \<lparr>fs_entries = [([''chroot''], Dir)], cwd = []\<rparr> \<and>
   create_directory \<lparr>fs_entries = [([''chroot''], Dir)], cwd = []\<rparr>
     \<lparr>fsys_root = ''chroot'', fsys_verbosity = DEFAULT, root_name = ''chroot''\<rparr> (join_with slash [''a'', ''b'']) =
     Inr \<lparr>fs_entries = [([''chroot''], Dir), ([''chroot'', ''a''], Dir), ([''chroot'', ''a'', ''b''], Dir)], cwd = []\<rparr>"
proof -
  let ?st = "\<lparr>fs_entries = [([''chroot''], Dir)], cwd = []\<rparr>"
  let ?fs = "\<lparr>fsys_root = ''chroot'', fsys_verbosity = DEFAULT, root_name = ''chroot''\<rparr>"
  have wf: "wf_fs ?st" by (simp add: fs_simps go_simps)
  have r: "plain_name (root_name ?fs)" by (simp add: plain_name_def)
  have ns: "[''a'', ''b''] \<noteq> []" "list_all plain_name [''a'', ''b'']" by (simp_all add: plain_name_def)
  have op: "dirs_open ?st (cwd ?st) (root_name ?fs # [''a'', ''b''])"
  proof (intro allI impI)
    fix k :: nat assume "0 < k" "k \<le> length (root_name ?fs # [''a'', ''b''])"
    then have "k = 1 \<or> k = 2 \<or> k = 3" by auto
    then show "node_at ?st (cwd ?st @ take k (root_name ?fs # [''a'', ''b''])) = None \<or>
        node_at ?st (cwd ?st @ take k (root_name ?fs # [''a'', ''b''])) = Some Dir"
      by (auto simp: fs_simps)
  qed
  have run: "create_directory ?st ?fs (join_with slash [''a'', ''b'']) =
     Inr \<lparr>fs_entries = [([''chroot''], Dir), ([''chroot'', ''a''], Dir), ([''chroot'', ''a'', ''b''], Dir)], cwd = []\<rparr>"
    by (simp add: create_directory_def fs_simps go_simps mkdir_all.simps mkdir_all_parent_def)
  from create_directory_creates [OF wf r ns op] run wf show ?thesis by simp
qed

text \<open>
  C13. \<open>CreateFile\<close> does not keep files inside the root. After \<open>New(r)\<close> for any
  plain directory name \<open>r\<close>, on any store, \<open>CreateFile("../" + n)\<close> for a plain
  name \<open>n\<close> not yet in the working directory succeeds and creates \<open>n\<close> in the
  working directory, beside the root rather than below it: \<open>path.Join\<close> cleans
  \<open>r/../n\<close> to \<open>n\<close>.
\<close>

theorem create_file_escapes:
  assumes new: "chroot_new st0 r = Inr (st, fsys)" and r: "plain_name r" and n: "plain_name n"
    and nd: "node_at st (cwd st @ [n]) = None"
  shows "create_file st fsys (''../'' @ n) data =
           Inr (set_node st (cwd st @ [n]) (File []), \<lparr>f_name = n, f_path = cwd st @ [n]\<rparr>) \<and>
         \<not> prefix (cwd st @ [r]) (cwd st @ [n])"
proof -
  from new chroot_new_result [OF r, of st0] have
    st: "st = (if node_at st0 (cwd st0 @ [r]) = None then set_node st0 (cwd st0 @ [r]) Dir else st0)"
    and fs: "root_name fsys = r" by (auto split: if_splits)
  have "node_at st (cwd st @ [r]) \<noteq> None" using st by (auto simp: node_at_set_node)
  with nd have nr: "n \<noteq> r" by auto
  have "create_file st fsys (''../'' @ n) data = os_create st n"
    using fs path_join_up [OF r n] by (simp add: create_file_def)
  also have "\<dots> = Inr (set_node st (cwd st @ [n]) (File []), \<lparr>f_name = n, f_path = cwd st @ [n]\<rparr>)"
    using os_create_plain [OF n, of st] nd by (simp add: is_link_def)
  finally show ?thesis using nr by simp
qed

theorem create_file_escapes_witness:
  "chroot_new \<lparr>fs_entries = [([''srv''], Dir)], cwd = [''srv'']\<rparr> ''chroot'' =
     Inr (\<lparr>fs_entries = [([''srv''], Dir), ([''srv'', ''chroot''], Dir)], cwd = [''srv'']\<rparr>,
          \<lparr>fsys_root = ''chroot'', fsys_verbosity = DEFAULT, root_name = ''chroot''\<rparr>) \<and>
   plain_name ''chroot'' \<and> plain_name ''evil'' \<and>
   node_at \<lparr>fs_entries = [([''srv''], Dir), ([''srv'', ''chroot''], Dir)], cwd = [''srv'']\<rparr> [''srv'', ''evil''] = None \<and>
   create_file \<lparr>fs_entries = [([''srv''], Dir), ([''srv'', ''chroot''], Dir)], cwd = [''srv'']\<rparr>
     \<lparr>fsys_root = ''chroot'', fsys_verbosity = DEFAULT, root_name = ''chroot''\<rparr> ''../evil'' [1, 2] =
     Inr (\<lparr>fs_entries = [([''srv''], Dir), ([''srv'', ''chroot''], Dir), ([''srv'', ''evil''], File [])], cwd = [''srv'']\<rparr>,
          \<lparr>f_name = ''evil'', f_path = [''srv'', ''evil'']\<rparr>)"
proof -
  let ?init = "\<lparr>fs_entries = [([''srv''], Dir)], cwd = [''srv'']\<rparr>"
  let ?st = "\<lparr>fs_entries = [([''srv''], Dir), ([''srv'', ''chroot''], Dir)], cwd = [''srv'']\<rparr>"
  let ?fs = "\<lparr>fsys_root = ''chroot'', fsys_verbosity = DEFAULT, root_name = ''chroot''\<rparr>"
  have new: "chroot_new ?init ''chroot'' = Inr (?st, ?fs)"
    by (simp add: chroot_new_def os_mkdir_def resolve_def fs_simps go_simps)
  have r: "plain_name ''chroot''" and n: "plain_name ''evil''" by (simp_all add: plain_name_def)
  have nd: "node_at ?st [''srv'', ''evil''] = None" by (simp add: fs_simps)
  have e: "''../'' @ ''evil'' = ''../evil''" by simp
  have "create_file ?st ?fs ''../evil'' [1, 2] =
     Inr (\<lparr>fs_entries = [([''srv''], Dir), ([''srv'', ''chroot''], Dir), ([''srv'', ''evil''], File [])], cwd = [''srv'']\<rparr>,
          \<lparr>f_name = ''evil'', f_path = [''srv'', ''evil'']\<rparr>)"
    using create_file_escapes [OF new r n, of "[1, 2]", unfolded e] nd by (simp add: fs_simps)
  with new r n nd show ?thesis by blast
qed

end
