(* ===== verification/KitSpec.thy ===== *)
theory KitSpec
  imports IoFs ChrootPkg
begin

text \<open>
  What \<open>zipDirFull\<close> promises, and that it keeps the promise on a kit without symbolic
  links. The abstract archive of a directory \<open>p\<close> (\<open>archive_spec\<close>) lists every
  non-empty regular file below \<open>p\<close> once, under its path relative to \<open>p\<close>, in the
  lexical order of those paths, with its content. The recursive traversal
  \<open>tree_list\<close> lists a directory's entries in \<open>ReadDir\<close>'s name order, descending
  into subdirectories; it equals the abstract archive on every well-formed store
  (\<open>tree_list_spec\<close>), and the walk of \<open>zip_dir_full\<close> computes it when no
  link lies below the kit (\<open>walk_dir_tree\<close>).
\<close>

section \<open>The abstract archive\<close>

definition nonempty_file :: "node option \<Rightarrow> bool" where
  "nonempty_file n \<longleftrightarrow> (case n of Some (File c) \<Rightarrow> c \<noteq> [] | _ \<Rightarrow> False)"

definition files_below :: "fs_state \<Rightarrow> apath \<Rightarrow> fname list list" where
  "files_below st p =
     sort (remdups [drop (length p) q. q \<leftarrow> fs_keys st, strict_prefix p q \<and> nonempty_file (node_at st q)])"

definition archive_spec :: "fs_state \<Rightarrow> apath \<Rightarrow> zip_entry list" where
  "archive_spec st p = map (\<lambda>r. (rel_name r, node_bytes (the (node_at st (p @ r))))) (files_below st p)"

section \<open>The tree traversal\<close>

definition file_entry :: "fs_state \<Rightarrow> apath \<Rightarrow> fname list \<Rightarrow> zip_entry list" where
  "file_entry st p r =
     (case node_at st (p @ r) of Some (File c) \<Rightarrow> (if c = [] then [] else [(rel_name r, c)]) | _ \<Rightarrow> [])"

lemma dir_names_key: "d \<in> set (dir_names st q) \<Longrightarrow> q @ [d] \<in> set (fs_keys st)"
proof -
  assume "d \<in> set (dir_names st q)"
  then obtain k where "k \<in> set (fs_keys st)" "k \<noteq> []" "butlast k = q" "last k = d"
    by (auto simp: dir_names_def fs_keys_def)
  then show ?thesis by (metis append_butlast_last_id)
qed

function tree_list :: "fs_state \<Rightarrow> apath \<Rightarrow> fname list \<Rightarrow> zip_entry list" where
  "tree_list st p r =
     concat (map (\<lambda>e. if snd e then tree_list st p (r @ [fst e]) else file_entry st p (r @ [fst e]))
       (dir_entries st (p @ r)))"
  by pat_completeness auto
termination
proof (relation "measure (\<lambda>(st, p, r). walk_fuel st - length (p @ r))")
  fix st p r e
  assume "e \<in> set (dir_entries st (p @ r))"
  then have "(p @ r) @ [fst e] \<in> set (fs_keys st)" by (auto simp: dir_entries_def dest: dir_names_key)
  from key_shorter_fuel [OF this] show "((st, p, r @ [fst e]), st, p, r) \<in> measure (\<lambda>(st, p, r). walk_fuel st - length (p @ r))"
    by simp
qed simp

declare tree_list.simps [simp del]

section \<open>The abstract archive, one directory at a time\<close>

lemma nonempty_fileD: "nonempty_file n \<Longrightarrow> \<exists>c. n = Some (File c) \<and> c \<noteq> []"
  by (auto simp: nonempty_file_def split: option.splits node.splits)

lemma key_in_dir_names:
  assumes k: "q @ [d] \<in> set (fs_keys st)"
  shows "d \<in> set (dir_names st q)"
proof -
  have "q @ [d] \<in> {x \<in> set (map fst (fs_entries st)). x \<noteq> [] \<and> butlast x = q}"
    using k by (simp add: fs_keys_def)
  then have "last (q @ [d]) \<in> last ` {x \<in> set (map fst (fs_entries st)). x \<noteq> [] \<and> butlast x = q}"
    by (rule imageI)
  then show ?thesis by (simp only: dir_names_def set_sort set_remdups set_map set_filter last_snoc)
qed

lemma set_files_below:
  "set (files_below st p) = {r. r \<noteq> [] \<and> nonempty_file (node_at st (p @ r))}"
proof (rule set_eqI, rule iffI)
  fix r
  assume "r \<in> set (files_below st p)"
  then obtain q where q: "q \<in> set (fs_keys st)" "strict_prefix p q" "nonempty_file (node_at st q)"
    and r: "r = drop (length p) q"
    by (auto simp: files_below_def split: if_splits)
  from q(2) obtain z where "q = p @ z" "z \<noteq> []" by (auto simp: strict_prefix_def prefix_def)
  with q(3) r show "r \<in> {r. r \<noteq> [] \<and> nonempty_file (node_at st (p @ r))}" by simp
next
  fix r
  assume "r \<in> {r. r \<noteq> [] \<and> nonempty_file (node_at st (p @ r))}"
  then have ne: "r \<noteq> []" and f: "nonempty_file (node_at st (p @ r))" by simp_all
  have "p @ r \<in> set (fs_keys st)"
    using nonempty_fileD [OF f] node_at_key [of "p @ r" st] ne by auto
  moreover have "strict_prefix p (p @ r)" using ne by (simp add: strict_prefix_def)
  ultimately have mem: "p @ r \<in> set (fs_keys st) \<inter> {q. strict_prefix p q \<and> nonempty_file (node_at st q)}"
    using f by simp
  have eq: "r = drop (length p) (p @ r)" by simp
  show "r \<in> set (files_below st p)" unfolding files_below_def by simp (use mem eq in blast)
qed

lemma strict_sorted_files_below: "sorted_wrt (<) (files_below st p)"
  by (simp add: files_below_def strict_sorted_iff)

lemma strict_sorted_dir_names: "sorted_wrt (<) (dir_names st q)"
  by (simp add: dir_names_def strict_sorted_iff)

text \<open>The block of one entry \<open>d\<close>: the entry itself if it is a file, then what lies below it.\<close>

definition below_block :: "fs_state \<Rightarrow> apath \<Rightarrow> fname \<Rightarrow> fname list list" where
  "below_block st q d =
     (if nonempty_file (node_at st (q @ [d])) then [[d]] else []) @ map (Cons d) (files_below st (q @ [d]))"

lemma below_block_sorted: "sorted_wrt (<) (below_block st q d)"
proof -
  have "sorted_wrt (<) (map (Cons d) (files_below st (q @ [d])))"
    using strict_sorted_files_below [of st "q @ [d]"] by (simp add: sorted_wrt_map)
  moreover have "[d] < d # x" if "x \<in> set (files_below st (q @ [d]))" for x
  proof -
    have "x \<noteq> []" using that set_files_below [of st "q @ [d]"] by blast
    then show ?thesis by (cases x) simp_all
  qed
  ultimately show ?thesis by (auto simp: below_block_def sorted_wrt_append)
qed

lemma below_block_hd: "x \<in> set (below_block st q d) \<Longrightarrow> \<exists>y. x = d # y"
  by (auto simp: below_block_def split: if_splits)

lemma sorted_concat_blocks:
  "sorted_wrt (<) ds \<Longrightarrow> (\<And>d. sorted_wrt (<) (B d)) \<Longrightarrow> (\<And>d x. x \<in> set (B d) \<Longrightarrow> \<exists>y. x = d # y) \<Longrightarrow>
   sorted_wrt (<) (concat (map B ds))"
proof (induction ds)
  case Nil
  then show ?case by simp
next
  case (Cons d ds)
  have "x < y" if x: "x \<in> set (B d)" and d': "d' \<in> set ds" and y: "y \<in> set (B d')" for x d' y
  proof -
    obtain u v where "x = d # u" "y = d' # v" using Cons.prems(3) [OF x] Cons.prems(3) [OF y] by blast
    moreover have "d < d'" using Cons.prems(1) d' by simp
    ultimately show ?thesis by simp
  qed
  with Cons show ?case by (auto simp: sorted_wrt_append)
qed

lemma files_below_unfold:
  assumes wf: "wf_fs st"
  shows "files_below st q = concat (map (below_block st q) (dir_names st q))"
proof (rule sorted_distinct_set_unique)
  show "sorted (files_below st q)" "distinct (files_below st q)"
    using strict_sorted_files_below [of st q] by (simp_all add: strict_sorted_iff)
  have s: "sorted_wrt (<) (concat (map (below_block st q) (dir_names st q)))"
    by (rule sorted_concat_blocks [OF strict_sorted_dir_names below_block_sorted below_block_hd])
  then show "sorted (concat (map (below_block st q) (dir_names st q)))"
    "distinct (concat (map (below_block st q) (dir_names st q)))"
    by (simp_all add: strict_sorted_iff)
  have "x \<in> set (files_below st q) \<longleftrightarrow> (\<exists>d \<in> set (dir_names st q). x \<in> set (below_block st q d))" for x
  proof
    assume x: "x \<in> set (files_below st q)"
    have "x \<noteq> [] \<and> nonempty_file (node_at st (q @ x))" using x set_files_below [of st q] by blast
    then obtain d y where xd: "x = d # y" and ne: "nonempty_file (node_at st (q @ d # y))"
      by (cases x) auto
    have "q @ [d] \<in> set (fs_keys st)"
    proof (cases "y = []")
      case True
      with ne node_at_key [of "q @ [d]" st] show ?thesis by (auto simp: nonempty_file_def)
    next
      case False
      have "node_at st (q @ d # y) \<noteq> None" using nonempty_fileD [OF ne] by auto
      from wf_fs_ancestor [OF wf this, of "q @ [d]"] False have "node_at st (q @ [d]) = Some Dir"
        by (simp add: prefix_def)
      then show ?thesis using node_at_key [of "q @ [d]" st] by auto
    qed
    then have dn: "d \<in> set (dir_names st q)" by (rule key_in_dir_names)
    have "x \<in> set (below_block st q d)"
    proof (cases "y = []")
      case True
      with ne xd show ?thesis by (simp add: below_block_def)
    next
      case False
      with ne have "y \<in> set (files_below st (q @ [d]))" by (simp add: set_files_below)
      with xd show ?thesis by (simp add: below_block_def)
    qed
    with dn show "\<exists>d \<in> set (dir_names st q). x \<in> set (below_block st q d)" by blast
  next
    assume "\<exists>d \<in> set (dir_names st q). x \<in> set (below_block st q d)"
    then obtain d where "x \<in> set (below_block st q d)" by blast
    then have "x = [d] \<and> nonempty_file (node_at st (q @ [d])) \<or>
        (\<exists>y. x = d # y \<and> y \<in> set (files_below st (q @ [d])))"
      by (auto simp: below_block_def split: if_splits)
    then have "x \<noteq> [] \<and> nonempty_file (node_at st (q @ x))"
      by (auto simp: set_files_below)
    then show "x \<in> set (files_below st q)" by (simp add: set_files_below)
  qed
  moreover have "x \<in> set (concat (map B ds)) \<longleftrightarrow> (\<exists>d \<in> set ds. x \<in> set (B d))" for x and B :: "fname \<Rightarrow> fname list list" and ds
    by simp
  ultimately show "set (files_below st q) = set (concat (map (below_block st q) (dir_names st q)))"
    by blast
qed

lemma files_below_non_dir:
  assumes wf: "wf_fs st" and nd: "node_at st q \<noteq> Some Dir"
  shows "files_below st q = []"
proof -
  have "r \<notin> set (files_below st q)" for r
  proof
    assume "r \<in> set (files_below st q)"
    then have ne: "r \<noteq> []" and f: "nonempty_file (node_at st (q @ r))" by (simp_all add: set_files_below)
    have "node_at st (q @ r) \<noteq> None" using nonempty_fileD [OF f] by auto
    from wf_fs_ancestor [OF wf this, of q] ne nd show False by simp
  qed
  then show ?thesis by (meson list.set_sel(1) neq_Nil_conv list.set_intros(1))
qed

lemma dir_entries_map:
  "map f (dir_entries st q) = map (\<lambda>n. f (n, node_at st (q @ [n]) = Some Dir)) (dir_names st q)"
  by (simp add: dir_entries_def)

text \<open>The traversal lists exactly the abstract archive of the directory it starts from.\<close>

lemma tree_list_spec:
  "wf_fs st \<Longrightarrow> tree_list st p r =
     map (\<lambda>r'. (rel_name (r @ r'), node_bytes (the (node_at st (p @ r @ r'))))) (files_below st (p @ r))"
proof (induction st p r rule: tree_list.induct)
  case (1 st p r)
  let ?E = "\<lambda>r'. (rel_name (r @ r'), node_bytes (the (node_at st (p @ r @ r'))))"
  let ?q = "p @ r"
  have blk: "(if node_at st (?q @ [n]) = Some Dir then tree_list st p (r @ [n]) else file_entry st p (r @ [n])) =
             map ?E (below_block st ?q n)" if n: "n \<in> set (dir_names st ?q)" for n
  proof (cases "node_at st (?q @ [n]) = Some Dir")
    case True
    have "(n, True) \<in> set (dir_entries st ?q)" using n True by (auto simp: dir_entries_def)
    from "1.IH" [OF this] "1.prems" True show ?thesis
      by (simp add: below_block_def nonempty_file_def comp_def)
  next
    case False
    with files_below_non_dir [OF "1.prems" False] show ?thesis
      by (auto simp: below_block_def nonempty_file_def file_entry_def node_bytes_def
          split: option.splits node.splits)
  qed
  have "tree_list st p r =
      concat (map (\<lambda>n. if node_at st (?q @ [n]) = Some Dir then tree_list st p (r @ [n]) else file_entry st p (r @ [n]))
        (dir_names st ?q))"
    by (simp add: tree_list.simps [of st p r] dir_entries_map cong: if_cong)
  also have "\<dots> = concat (map (\<lambda>n. map ?E (below_block st ?q n)) (dir_names st ?q))"
    using blk by (simp cong: map_cong)
  also have "\<dots> = map ?E (files_below st ?q)"
    by (simp add: files_below_unfold [OF "1.prems", of ?q] map_concat comp_def)
  finally show ?case .
qed

section \<open>The walk computes the traversal\<close>

lemma path_join_rel_names:
  assumes bs: "list_all plain_name bs" "bs \<noteq> []" and r: "list_all plain_name r"
  shows "path_join [rel_name bs, rel_name r] = rel_name (bs @ r)"
proof -
  have ne: "rel_name bs \<noteq> []"
    using bs by (cases bs) (auto simp: rel_name_def join_with_Nil_iff plain_name_def)
  have nr: "\<not> is_rooted (rel_name bs @ slash # rel_name r)" by (rule rel_name_not_rooted [OF bs(1)])
  have sp: "split_on slash (rel_name bs @ slash # rel_name r) = bs @ (if r = [] then [''.''] else r)"
    using bs by (simp add: split_on_append_sep split_rel_name [OF bs(1)] split_rel_name [OF r])
  have ce: "clean_elems (rel_name bs @ slash # rel_name r) = bs @ r"
    using nr bs r
    by (simp add: clean_elems_def sp clean_segs_def foldl_clean_step_plain clean_step_skip)
  have "path_join [rel_name bs, rel_name r] = clean (rel_name bs @ slash # rel_name r)"
    by (rule path_join_two [OF ne])
  also have "\<dots> = join_with slash (bs @ r)"
    using ce nr bs by (simp add: clean_eq [of "rel_name bs @ slash # rel_name r"])
  also have "\<dots> = rel_name (bs @ r)" using bs by (simp add: rel_name_def)
  finally show ?thesis .
qed

lemma walk_real_node:
  assumes wf: "wf_fs st" and q: "list_all plain_name q" "q \<noteq> []"
    and n: "node_at st (c @ q) = Some nd" and nl: "\<not> is_link (Some nd)"
  shows "walk st fuel follow c q = Inr (c @ q)"
proof -
  obtain q' s where qs: "q = q' @ [s]" using q(2) by (cases q rule: rev_cases) auto
  have "c @ q \<in> set (fs_keys st)" using n node_at_key [of "c @ q" st] q(2) by simp
  with wf have "node_at st (butlast (c @ q)) = Some Dir" by (auto simp: wf_fs_def)
  moreover have "butlast (c @ q) = c @ q'" using qs by (simp add: butlast_append)
  ultimately have d: "node_at st (c @ q') = Some Dir" by simp
  from q qs have pq: "list_all plain_name q'" and ps: "plain_name s" by simp_all
  have "walk st fuel follow c (q' @ [s]) = walk st fuel follow (c @ q') [s]"
    by (rule walk_real_append [OF wf d pq])
  also have "\<dots> = Inr (c @ q' @ [s])" using walk_plain [OF ps] nl n qs by simp
  finally show ?thesis using qs by simp
qed

lemma zip_visit_real:
  assumes wf: "wf_fs st" and bs: "list_all plain_name bs" "bs \<noteq> []" and r: "list_all plain_name r"
    and n: "node_at st (cwd st @ bs @ r) = Some nd" and nl: "\<not> is_link (Some nd)"
  shows "zip_visit st (rel_name bs) (rel_name r) =
    Some (st, Inr (if node_size nd < 1 \<or> nd = Dir then None else Some (rel_name r, node_bytes nd)))"
proof -
  have pl: "list_all plain_name (bs @ r)" "bs @ r \<noteq> []" using bs r by simp_all
  have rn: "rel_name (bs @ r) = join_with slash (bs @ r)" using pl(2) by (simp add: rel_name_def)
  have "resolve st True (rel_name (bs @ r)) = walk st max_symlinks True (cwd st) (bs @ r)"
    unfolding rn by (rule resolve_join_plain [OF pl(2) pl(1)])
  also have "\<dots> = Inr (cwd st @ bs @ r)" using walk_real_node [OF wf pl(1) pl(2)] n nl by simp
  finally have "os_open st (rel_name (bs @ r)) = Inr \<lparr>f_name = rel_name (bs @ r), f_path = cwd st @ bs @ r\<rparr>"
    using n by (simp add: os_open_def)
  then show ?thesis using n
    by (simp add: zip_visit_eq path_join_rel_names [OF bs r] file_stat_def)
qed

lemma walk_dir_tree:
  assumes wf: "wf_fs st" and bs: "list_all plain_name bs" "bs \<noteq> []"
    and d0: "node_at st (cwd st @ bs) = Some Dir" and nl: "no_links_under st (cwd st @ bs)"
  shows "0 < n \<Longrightarrow> walk_fuel st \<le> n + length (cwd st @ bs @ r) \<Longrightarrow> list_all plain_name r \<Longrightarrow>
         node_at st (cwd st @ bs @ r) = Some nd \<Longrightarrow>
         walk_dir n st (rel_name bs) (rel_name r) (nd = Dir) acc =
           Some (st, Inr (acc @ (if nd = Dir then tree_list st (cwd st @ bs) r else file_entry st (cwd st @ bs) r)))"
proof (induction n arbitrary: r nd acc)
  case 0
  then show ?case by simp
next
  case (Suc n)
  let ?p0 = "cwd st @ bs"
  have lk: "\<not> is_link (Some nd)"
    using nl [unfolded no_links_under_iff, rule_format, of "cwd st @ bs @ r"] Suc.prems(4) by simp
  note zv = zip_visit_real [OF wf bs Suc.prems(3) Suc.prems(4) lk]
  show ?case
  proof (cases "nd = Dir")
    case False
    then have "file_entry st ?p0 r = (if node_size nd < 1 then [] else [(rel_name r, node_bytes nd)])"
      using Suc.prems(4) lk by (cases nd) (auto simp: file_entry_def node_size_def node_bytes_def is_link_def)
    with zv False show ?thesis by (simp add: Let_def)
  next
    case True
    have p0w: "walk st max_symlinks True (if is_rooted (rel_name bs @ [slash]) then [] else cwd st)
        (split_on slash (rel_name bs)) = Inr ?p0"
      using rel_name_not_rooted [OF bs(1), of "[]"] split_rel_name [OF bs(1)] bs(2) walk_real [OF wf d0 bs(1)]
      by simp
    have dr: "node_at st (?p0 @ r) = Some Dir" using Suc.prems(4) True by simp
    have rd: "os_read_dir st (dirfs_name (rel_name bs) (rel_name r)) = Inr (dir_entries st (?p0 @ r))"
      by (rule os_read_dir_dirfs [OF wf p0w d0 Suc.prems(3) dr])
    let ?g = "\<lambda>e. if snd e then tree_list st ?p0 (r @ [fst e]) else file_entry st ?p0 (r @ [fst e])"
    have ent: "set ds \<subseteq> set (dir_entries st (?p0 @ r)) \<Longrightarrow>
        walk_entries n st (rel_name bs) (rel_name r) ds a = Some (st, Inr (a @ concat (map ?g ds)))" for ds a
    proof (induction ds arbitrary: a)
      case Nil
      then show ?case by simp
    next
      case (Cons e ds)
      obtain d b where e: "e = (d, b)" by fastforce
      with Cons.prems dir_entries_facts [OF wf, of d b "?p0 @ r"] have
        key: "cwd st @ bs @ r @ [d] \<in> set (fs_keys st)" and pd: "plain_name d" by auto
      have b: "b = (node_at st (cwd st @ bs @ r @ [d]) = Some Dir)"
        using Cons.prems e by (auto simp: dir_entries_def)
      obtain nd' where nd': "node_at st (cwd st @ bs @ r @ [d]) = Some nd'"
        using key node_at_key [of "cwd st @ bs @ r @ [d]" st] by auto
      from key_shorter_fuel [OF key] Suc.prems(2) have fuel: "0 < n" "walk_fuel st \<le> n + length (cwd st @ bs @ r @ [d])"
        by simp_all
      have w: "walk_dir n st (rel_name bs) (rel_name (r @ [d])) (nd' = Dir) a =
          Some (st, Inr (a @ (if nd' = Dir then tree_list st ?p0 (r @ [d]) else file_entry st ?p0 (r @ [d]))))"
        using Suc.IH [of "r @ [d]" nd' a, OF fuel] Suc.prems(3) pd nd' by simp
      have g: "?g e = (if nd' = Dir then tree_list st ?p0 (r @ [d]) else file_entry st ?p0 (r @ [d]))"
        using e b nd' by simp
      have "walk_entries n st (rel_name bs) (rel_name r) ds (a @ ?g e) =
          Some (st, Inr ((a @ ?g e) @ concat (map ?g ds)))"
        using Cons.IH Cons.prems by simp
      then show ?case using w g e b nd' path_join_rel_name [OF Suc.prems(3) pd] by simp
    qed
    have "walk_entries n st (rel_name bs) (rel_name r) (dir_entries st (?p0 @ r)) acc =
        Some (st, Inr (acc @ tree_list st ?p0 r))"
      using ent [of "dir_entries st (?p0 @ r)" acc] by (simp add: tree_list.simps [of st ?p0 r])
    with zv rd True show ?thesis by (simp add: Let_def)
  qed
qed

section \<open>Every archive name is a valid fs path\<close>

lemma os_read_dir_plain:
  assumes wf: "wf_fs st" and r: "os_read_dir st name = Inr ds"
  shows "list_all (\<lambda>e. plain_name (fst e)) ds"
proof -
  from r obtain p where ds: "ds = dir_entries st p"
    by (auto simp: os_read_dir_def split: sum.splits option.splits node.splits)
  show ?thesis unfolding ds list_all_iff using dir_entries_facts [OF wf] by fastforce
qed

lemma zip_visit_names:
  "wf_fs st \<Longrightarrow> list_all plain_name r \<Longrightarrow> zip_visit st base (rel_name r) = Some (st1, Inr ent) \<Longrightarrow>
   st1 = st \<and> list_all (\<lambda>x. valid_path (fst x)) (case ent of None \<Rightarrow> [] | Some x \<Rightarrow> [x])"
  using zip_visit_entry [of st base "rel_name r" st1 "Inr ent"] valid_path_rel_name [of r]
  by (cases ent) auto

lemma walk_dir_names:
  "wf_fs st \<Longrightarrow> list_all plain_name r \<Longrightarrow> walk_dir n st base (rel_name r) isd acc = Some (st', Inr es) \<Longrightarrow>
   \<exists>new. es = acc @ new \<and> list_all (\<lambda>x. valid_path (fst x)) new"
proof (induction n arbitrary: r isd acc st' es)
  case 0
  then show ?case by simp
next
  case (Suc n)
  have ent: "list_all (\<lambda>e. plain_name (fst e)) ds \<Longrightarrow>
      walk_entries n st base (rel_name r) ds a = Some (st', Inr es) \<Longrightarrow>
      \<exists>new. es = a @ new \<and> list_all (\<lambda>x. valid_path (fst x)) new" for ds a st' es
  proof (induction ds arbitrary: a)
    case Nil
    then show ?case by simp
  next
    case (Cons e ds)
    obtain d b where e: "e = (d, b)" by fastforce
    with Cons.prems(1) have pd: "plain_name d" and pds: "list_all (\<lambda>e. plain_name (fst e)) ds" by simp_all
    have pj: "path_join [rel_name r, d] = rel_name (r @ [d])" by (rule path_join_rel_name [OF Suc.prems(2) pd])
    obtain st1 x where w: "walk_dir n st base (rel_name (r @ [d])) b a = Some (st1, x)"
      using Cons.prems(2) e pj by (cases "walk_dir n st base (rel_name (r @ [d])) b a") auto
    have s1: "st1 = st" using walk_dir_ok(1) [OF Suc.prems(1) w] by simp
    show ?case
    proof (cases x)
      case (Inl err)
      with Cons.prems(2) e pj w show ?thesis by simp
    next
      case (Inr acc1)
      from Suc.IH [OF Suc.prems(1) _ w [unfolded Inr]] Suc.prems(2) pd obtain n1
        where n1: "acc1 = a @ n1" "list_all (\<lambda>x. valid_path (fst x)) n1" by auto
      from Cons.prems(2) e pj w Inr s1 have "walk_entries n st base (rel_name r) ds acc1 = Some (st', Inr es)"
        by simp
      from Cons.IH [OF pds this] n1 show ?thesis by auto
    qed
  qed
  obtain st1 y where zv: "zip_visit st base (rel_name r) = Some (st1, y)"
    using Suc.prems(3) by (cases "zip_visit st base (rel_name r)") auto
  show ?case
  proof (cases y)
    case (Inl err)
    with Suc.prems(3) zv show ?thesis by simp
  next
    case (Inr en)
    let ?ev = "case en of None \<Rightarrow> [] | Some x \<Rightarrow> [x]"
    from zip_visit_names [OF Suc.prems(1,2) zv [unfolded Inr]] have
      s1: "st1 = st" and v1: "list_all (\<lambda>x. valid_path (fst x)) ?ev" by simp_all
    show ?thesis
    proof (cases "isd")
      case False
      with Suc.prems(3) zv Inr v1 show ?thesis by (auto simp: Let_def)
    next
      case True
      show ?thesis
      proof (cases "os_read_dir st (dirfs_name base (rel_name r))")
        case (Inr ds)
        with Suc.prems(3) zv s1 \<open>y = Inr en\<close> True have
          "walk_entries n st base (rel_name r) ds (acc @ ?ev) = Some (st', Inr es)" by (simp add: Let_def)
        from ent [OF os_read_dir_plain [OF Suc.prems(1) Inr] this] v1 show ?thesis by auto
      next
        case (Inl err)
        obtain st2 y2 where zv2: "zip_visit st base (rel_name r) = Some (st2, y2)" using zv s1 by simp
        show ?thesis
        proof (cases y2)
          case (Inl e2)
          with Suc.prems(3) zv zv2 s1 \<open>y = Inr en\<close> True \<open>os_read_dir st _ = Inl err\<close> show ?thesis
            by (simp add: Let_def)
        next
          case (Inr en2)
          from zip_visit_names [OF Suc.prems(1,2) zv2 [unfolded Inr]] have
            "list_all (\<lambda>x. valid_path (fst x)) (case en2 of None \<Rightarrow> [] | Some x \<Rightarrow> [x])" by simp
          with Suc.prems(3) zv zv2 s1 \<open>y = Inr en\<close> Inr True \<open>os_read_dir st _ = Inl err\<close> v1 show ?thesis
            by (auto simp: Let_def)
        qed
      qed
    qed
  qed
qed

section \<open>Examples\<close>

definition kit_tree_example :: fs_state where
  "kit_tree_example =
     \<lparr>fs_entries = [([''srv''], Dir), ([''srv'', ''kit''], Dir), ([''srv'', ''kit'', ''b''], File [1]),
        ([''srv'', ''kit'', ''a''], Dir), ([''srv'', ''kit'', ''a'', ''x''], File [2]),
        ([''srv'', ''kit'', ''e''], File [])],
      cwd = [''srv'']\<rparr>"

section \<open>zipDirFull refines the abstract archive\<close>

text \<open>
  C18. Refinement of \<open>zipDirFull\<close>: for a kit directory below the working directory,
  named by a path of plain names, with no symbolic link below it, \<open>zipDirFull\<close>
  returns, without changing the store, exactly the abstract archive: every non-empty
  regular file below the directory once, under its relative path, in the lexical order
  of the paths, with its content; directories and empty files are left out.
\<close>

theorem zip_dir_full_listing:
  assumes wf: "wf_fs st" and bs: "list_all plain_name bs" "bs \<noteq> []"
    and d0: "node_at st (cwd st @ bs) = Some Dir" and nl: "no_links_under st (cwd st @ bs)"
  shows "zip_dir_full st (join_with slash bs) = Some (st, Inr (archive_spec st (cwd st @ bs)))"
proof -
  have rb: "join_with slash bs = rel_name bs" using bs(2) by (simp add: rel_name_def)
  have r0: "rel_name [] = ''.''" by (simp add: rel_name_def)
  have "resolve st True (dirfs_name (rel_name bs) ''.'') = walk st max_symlinks True (cwd st) (bs @ [''.''])"
    using rel_name_not_rooted [OF bs(1), of "''.''"] split_rel_name [OF bs(1)] bs(2)
    by (simp add: resolve_def dirfs_name_def split_on_append_sep split_on_no_sep_eq)
  also have "\<dots> = walk st max_symlinks True (cwd st @ bs) [''.'']" by (rule walk_real_append [OF wf d0 bs(1)])
  also have "\<dots> = Inr (cwd st @ bs)" by (simp add: walk_simps)
  finally have "os_stat st (dirfs_name (rel_name bs) ''.'') = Inr Dir" using d0 by (simp add: os_stat_def)
  moreover have "walk_dir (walk_fuel st) st (rel_name bs) (rel_name []) True [] =
      Some (st, Inr (tree_list st (cwd st @ bs) []))"
    using walk_dir_tree [OF wf bs d0 nl, of "walk_fuel st" "[]" Dir "[]"] d0 by (simp add: walk_fuel_def)
  moreover have "tree_list st (cwd st @ bs) [] = archive_spec st (cwd st @ bs)"
    by (simp add: tree_list_spec [OF wf] archive_spec_def)
  ultimately show ?thesis by (simp add: zip_dir_full_def walk_dir_root_def rb r0)
qed

theorem zip_dir_full_listing_witness:
  "wf_fs kit_tree_example \<and> list_all plain_name [''kit''] \<and> [''kit''] \<noteq> [] \<and>
   node_at kit_tree_example [''srv'', ''kit''] = Some Dir \<and> no_links_under kit_tree_example [''srv'', ''kit''] \<and>
   zip_dir_full kit_tree_example ''kit'' = Some (kit_tree_example, Inr [(''a/x'', [2]), (''b'', [1])])"
proof -
  have wf: "wf_fs kit_tree_example" by (simp add: kit_tree_example_def fs_simps go_simps)
  have pl: "list_all plain_name [''kit'']" by (simp add: plain_name_def)
  have d: "node_at kit_tree_example (cwd kit_tree_example @ [''kit'']) = Some Dir"
    by (simp add: kit_tree_example_def fs_simps)
  have nl: "no_links_under kit_tree_example (cwd kit_tree_example @ [''kit''])"
    by (simp add: kit_tree_example_def fs_simps)
  have spec: "archive_spec kit_tree_example (cwd kit_tree_example @ [''kit'']) = [(''a/x'', [2]), (''b'', [1])]"
    by code_simp
  from zip_dir_full_listing [OF wf pl _ d nl] spec wf pl d nl show ?thesis
    by (simp add: kit_tree_example_def)
qed

text \<open>
  C19. The type of an archive's names: on every well-formed store, links included,
  each entry of an archive \<open>zipDirFull\<close> returns is named by a valid \<open>io/fs\<close> path
  (\<open>fs.ValidPath\<close>): \<open>.\<close> or slash-separated elements none of which is empty,
  \<open>.\<close> or \<open>..\<close>. No entry is absolute or climbs out of the directory the archive is
  extracted into.
\<close>

theorem zip_dir_full_names_valid:
  assumes wf: "wf_fs st" and z: "zip_dir_full st base = Some (st', Inr es)"
  shows "list_all (\<lambda>x. valid_path (fst x)) es"
proof (cases "os_stat st (dirfs_name base ''.'')")
  case (Inl e)
  with z show ?thesis by (simp add: zip_dir_full_def walk_dir_root_def)
next
  case (Inr nd)
  with z have "walk_dir (walk_fuel st) st base (rel_name []) (mode_is_dir (node_mode nd)) [] = Some (st', Inr es)"
    by (simp add: zip_dir_full_def walk_dir_root_def rel_name_def)
  from walk_dir_names [OF wf _ this] show ?thesis by auto
qed

theorem zip_dir_full_names_valid_witness:
  "wf_fs kit_example \<and>
   zip_dir_full kit_example ''kits/linux/bin'' =
     Some (kit_example, Inr [(''a.txt'', [0x68, 0x65, 0x6C, 0x6C, 0x6F]),
       (''link.txt'', [0x68, 0x65, 0x6C, 0x6C, 0x6F]), (''sub/b.txt'', [0x68, 0x69])]) \<and>
   list_all (\<lambda>x. valid_path (fst x)) [(''a.txt'', [0x68, 0x65, 0x6C, 0x6C, 0x6F] :: bytes),
       (''link.txt'', [0x68, 0x65, 0x6C, 0x6C, 0x6F]), (''sub/b.txt'', [0x68, 0x69])]"
proof -
  have wf: "wf_fs kit_example" by (simp add: kit_example_def fs_simps go_simps)
  have z: "zip_dir_full kit_example ''kits/linux/bin'' =
     Some (kit_example, Inr [(''a.txt'', [0x68, 0x65, 0x6C, 0x6C, 0x6F]),
       (''link.txt'', [0x68, 0x65, 0x6C, 0x6C, 0x6F]), (''sub/b.txt'', [0x68, 0x69])])"
    by (simp add: kit_example_def kit_defs fs_simps go_simps Let_def)
  from zip_dir_full_names_valid [OF wf z] wf z show ?thesis by simp
qed

end
