(* ===== verification/ChrootFS.thy ===== *)
theory ChrootFS
  imports KitSpec
begin

text \<open>
  The two faces of a chroot \<open>FileSystem\<close>: it writes through \<open>rootName\<close>
  (\<open>CreateFile\<close> and \<open>CreateDirectory\<close> join it with the caller's path) and it is
  read through \<open>Root\<close>, the \<open>os.DirFS(dirpath)\<close> that \<open>New\<close> stores, an
  implementation of the interface \<open>FS\<close> of \<open>fs.go\<close>. \<open>root_fs\<close> is that
  interface on the current store. Reading back a file \<open>CreateFile\<close> made gives the
  empty content, whatever data was passed; and a read through \<open>Root\<close> never leaves
  the root when no link lies below it, because \<open>os.DirFS\<close> rejects every name that
  is not a valid \<open>io/fs\<close> path, while a write through \<open>rootName\<close> can (C13).
\<close>

definition root_fs :: "fs_state \<Rightarrow> file_system \<Rightarrow> fs_iface" where
  "root_fs st fsys = dir_fs st (fsys_root fsys)"

section \<open>Names below a root\<close>

lemma join_with_append:
  "xs \<noteq> [] \<Longrightarrow> ys \<noteq> [] \<Longrightarrow> join_with c (xs @ ys) = join_with c xs @ c # join_with c ys"
  by (induction xs rule: join_with.induct) (simp_all add: join_with_Cons)

lemma chroot_new_fields:
  "chroot_new st d = Inr (st', fsys) \<Longrightarrow> fsys_root fsys = d \<and> root_name fsys = d"
  by (auto simp: chroot_new_def Let_def split: sum.splits os_error.splits)

lemma valid_path_plain:
  "valid_path name \<Longrightarrow> name \<noteq> ''.'' \<Longrightarrow> list_all plain_name (split_on slash name)"
  by (simp add: valid_path_def valid_elems_split)

lemma plain_join_valid:
  "list_all plain_name ns \<Longrightarrow> ns \<noteq> [] \<Longrightarrow> valid_path (join_with slash ns)"
  using valid_path_rel_name [of ns] by (simp add: rel_name_def)

text \<open>Below a directory with no link under it, a walk of plain names goes where they say.\<close>

lemma walk_below_no_links:
  "list_all plain_name ns \<Longrightarrow> no_links_under st p0 \<Longrightarrow> walk st k fl p0 ns = Inr q \<Longrightarrow> q = p0 @ ns"
  by (rule walk_plain_path) (auto simp: no_links_under_iff)

lemma resolve_dirfs_name:
  assumes r: "resolve st True root = Inr p0" and d0: "node_at st p0 = Some Dir" and ne: "root \<noteq> []"
  shows "\<exists>k. resolve st True (dirfs_name root name) = walk st k True p0 (split_on slash name)"
proof -
  let ?c0 = "if is_rooted root then [] else cwd st"
  have w: "walk st max_symlinks True ?c0 (split_on slash root) = Inr p0" using r ne by (simp add: resolve_def)
  have "is_rooted (root @ slash # name) = is_rooted root" using ne by (cases root) (simp_all add: is_rooted_def)
  then have "resolve st True (dirfs_name root name) =
      walk st max_symlinks True ?c0 (split_on slash root @ split_on slash name)"
    by (simp add: resolve_def dirfs_name_def split_on_append_sep)
  with walk_append_dir [OF _ w d0] show ?thesis by auto
qed

text \<open>
  A read through \<open>os.DirFS(root)\<close>, where the root resolves to a directory with no
  link below it, returns a regular file strictly below that directory, reached by
  plain names.
\<close>

lemma dirfs_read_below:
  assumes wf: "wf_fs st" and r: "resolve st True (fsys_root fsys) = Inr p0" and d0: "node_at st p0 = Some Dir"
    and nl: "no_links_under st p0" and rd: "fs_read_file (root_fs st fsys) name = Inr c"
  shows "\<exists>r. r \<noteq> [] \<and> list_all plain_name r \<and> node_at st (p0 @ r) = Some (File c)"
proof -
  from rd have ne: "fsys_root fsys \<noteq> []" and v: "valid_path name"
    and o: "os_read_file st (dirfs_name (fsys_root fsys) name) = Inr c"
    by (auto simp: root_fs_def dir_fs_def dirfs_call_def split: if_splits)
  obtain k where w: "resolve st True (dirfs_name (fsys_root fsys) name) = walk st k True p0 (split_on slash name)"
    using resolve_dirfs_name [OF r d0 ne] by blast
  from o w obtain q where q: "walk st k True p0 (split_on slash name) = Inr q" "node_at st q = Some (File c)"
    by (auto simp: os_read_file_def split: sum.splits option.splits node.splits)
  show ?thesis
  proof (cases "name = ''.''")
    case True
    then have "q = p0" using q(1) by (simp add: walk_simps)
    with q(2) d0 show ?thesis by simp
  next
    case False
    have pl: "list_all plain_name (split_on slash name)" by (rule valid_path_plain [OF v False])
    have "q = p0 @ split_on slash name" by (rule walk_below_no_links [OF pl nl q(1)])
    with q(2) pl show ?thesis using split_on_not_Nil [of slash name] by blast
  qed
qed

section \<open>Examples\<close>

definition example_fsys :: file_system where
  "example_fsys = \<lparr>fsys_root = ''root'', fsys_verbosity = DEFAULT, root_name = ''root''\<rparr>"

definition chroot_fs_example :: fs_state where
  "chroot_fs_example =
     \<lparr>fs_entries = [([''srv''], Dir), ([''srv'', ''root''], Dir), ([''srv'', ''root'', ''a''], File [7])],
      cwd = [''srv'']\<rparr>"

section \<open>Properties of the chroot FileSystem's two faces\<close>

text \<open>
  C20. Round trip through the chroot package: after \<open>New(dirpath)\<close> for a path of
  plain names naming a directory below the working directory with no link under it,
  \<open>CreateFile(name, data)\<close> of a relative path of plain names followed by
  \<open>Root.ReadFile(name)\<close> gives the empty content, whatever \<open>data\<close> was: the file
  is created where \<open>Root\<close> reads, but the data is never written.
\<close>

theorem create_file_read_back:
  assumes new: "chroot_new st0 (join_with slash ds) = Inr (st, fsys)" and wf: "wf_fs st"
    and ds: "list_all plain_name ds" "ds \<noteq> []" and ns: "list_all plain_name ns" "ns \<noteq> []"
    and d0: "node_at st (cwd st @ ds) = Some Dir" and nl: "no_links_under st (cwd st @ ds)"
    and cf: "create_file st fsys (join_with slash ns) data = Inr (st', h)"
  shows "fs_read_file (root_fs st' fsys) (join_with slash ns) = Inr []"
proof -
  let ?N = "join_with slash (ds @ ns)" and ?p = "cwd st @ ds @ ns"
  have f: "fsys_root fsys = join_with slash ds" "root_name fsys = join_with slash ds"
    using chroot_new_fields [OF new] by simp_all
  have pl: "list_all plain_name (ds @ ns)" "ds @ ns \<noteq> []" using ds ns by simp_all
  have pj: "path_join [join_with slash ds, join_with slash ns] = ?N"
    using path_join_rel_names [OF ds ns(1)] ds(2) ns(2) by (simp add: rel_name_def)
  have oc: "os_create st ?N = Inr (st', h)" using cf f pj by (simp add: create_file_def)
  have res: "resolve st True ?N = walk st max_symlinks True (cwd st @ ds) ns"
    using resolve_join_plain [OF pl(2) pl(1)] walk_real_append [OF wf d0 ds(1)] by simp
  obtain p where rp: "resolve st True ?N = Inr p" and st': "st' = set_node st p (File [])"
    using oc by (auto simp: os_create_def split: sum.splits option.splits node.splits if_splits)
  have pp: "p = ?p" using walk_below_no_links [OF ns(1) nl] rp res by simp
  have wf': "wf_fs st'" and c': "cwd st' = cwd st" using os_create_wf [OF wf oc] os_create_cwd [OF oc] by simp_all
  have n': "node_at st' ?p = Some (File [])" using st' pp ns(2) by (simp add: node_at_set_node)
  have "resolve st' True ?N = Inr ?p"
    using resolve_join_plain [OF pl(2) pl(1)] walk_real_node [OF wf' pl(1) pl(2), of "cwd st'" "File []"] n' c'
    by (simp add: is_link_def)
  then have "os_read_file st' ?N = Inr []" using n' by (simp add: os_read_file_def)
  moreover have "dirfs_name (join_with slash ds) (join_with slash ns) = ?N"
    using join_with_append [OF ds(2) ns(2)] by (simp add: dirfs_name_def)
  moreover have "join_with slash ds \<noteq> []" using ds by (cases ds) (auto simp: plain_name_def join_with_Nil_iff)
  ultimately show ?thesis
    using f plain_join_valid [OF ns] by (simp add: root_fs_def dir_fs_def dirfs_call_def)
qed

theorem create_file_read_back_witness:
  "chroot_new \<lparr>fs_entries = [([''srv''], Dir)], cwd = [''srv'']\<rparr> (join_with slash [''root'']) =
     Inr (\<lparr>fs_entries = [([''srv''], Dir), ([''srv'', ''root''], Dir)], cwd = [''srv'']\<rparr>, example_fsys) \<and>
   wf_fs \<lparr>fs_entries = [([''srv''], Dir), ([''srv'', ''root''], Dir)], cwd = [''srv'']\<rparr> \<and>
   list_all plain_name [''root''] \<and> [''root''] \<noteq> [] \<and> list_all plain_name [''f''] \<and> [''f''] \<noteq> [] \<and>
   node_at \<lparr>fs_entries = [([''srv''], Dir), ([''srv'', ''root''], Dir)], cwd = [''srv'']\<rparr> [''srv'', ''root''] = Some Dir \<and>
   no_links_under \<lparr>fs_entries = [([''srv''], Dir), ([''srv'', ''root''], Dir)], cwd = [''srv'']\<rparr> [''srv'', ''root''] \<and>
   create_file \<lparr>fs_entries = [([''srv''], Dir), ([''srv'', ''root''], Dir)], cwd = [''srv'']\<rparr> example_fsys
     (join_with slash [''f'']) [1, 2, 3] =
     Inr (\<lparr>fs_entries = [([''srv''], Dir), ([''srv'', ''root''], Dir), ([''srv'', ''root'', ''f''], File [])],
            cwd = [''srv'']\<rparr>, \<lparr>f_name = ''root/f'', f_path = [''srv'', ''root'', ''f'']\<rparr>) \<and>
   fs_read_file (root_fs \<lparr>fs_entries = [([''srv''], Dir), ([''srv'', ''root''], Dir), ([''srv'', ''root'', ''f''], File [])],
            cwd = [''srv'']\<rparr> example_fsys) ''f'' = Inr []"
proof -
  let ?s0 = "\<lparr>fs_entries = [([''srv''], Dir)], cwd = [''srv'']\<rparr>"
  let ?s1 = "\<lparr>fs_entries = [([''srv''], Dir), ([''srv'', ''root''], Dir)], cwd = [''srv'']\<rparr>"
  let ?s2 = "\<lparr>fs_entries = [([''srv''], Dir), ([''srv'', ''root''], Dir), ([''srv'', ''root'', ''f''], File [])],
            cwd = [''srv'']\<rparr>"
  have new: "chroot_new ?s0 (join_with slash [''root'']) = Inr (?s1, example_fsys)"
    by (simp add: chroot_new_def example_fsys_def fs_simps go_simps Let_def)
  have wf: "wf_fs ?s1" by (simp add: fs_simps go_simps)
  have pl: "list_all plain_name [''root'']" "list_all plain_name [''f'']" by (simp_all add: plain_name_def)
  have d: "node_at ?s1 (cwd ?s1 @ [''root'']) = Some Dir" by (simp add: fs_simps)
  have nl: "no_links_under ?s1 (cwd ?s1 @ [''root''])" by (simp add: fs_simps)
  have cf: "create_file ?s1 example_fsys (join_with slash [''f'']) [1, 2, 3] =
     Inr (?s2, \<lparr>f_name = ''root/f'', f_path = [''srv'', ''root'', ''f'']\<rparr>)"
    by (simp add: create_file_def example_fsys_def fs_simps go_simps)
  from create_file_read_back [OF new wf pl(1) _ pl(2) _ d nl cf] new wf pl d nl cf show ?thesis by simp
qed

text \<open>
  C21. Reads through \<open>Root\<close> stay inside the directory \<open>New\<close> created: after
  \<open>New(dirpath)\<close> for a path of plain names naming a directory below the working
  directory with no symbolic link under it, every file \<open>Root.ReadFile\<close> returns is a
  regular file strictly below \<open>dirpath\<close>, reached by plain names. A name with
  \<open>..\<close>, an empty element or a leading slash is refused with \<open>ErrInvalid\<close> before
  any file-system call; \<open>CreateFile\<close> has no such check (C13).
\<close>

theorem root_read_contained:
  assumes new: "chroot_new st0 (join_with slash ds) = Inr (st, fsys)" and wf: "wf_fs st"
    and ds: "list_all plain_name ds" "ds \<noteq> []"
    and d0: "node_at st (cwd st @ ds) = Some Dir" and nl: "no_links_under st (cwd st @ ds)"
    and rd: "fs_read_file (root_fs st fsys) name = Inr c"
  shows "\<exists>r. r \<noteq> [] \<and> list_all plain_name r \<and> node_at st (cwd st @ ds @ r) = Some (File c)"
proof -
  have f: "fsys_root fsys = join_with slash ds" using chroot_new_fields [OF new] by simp
  have "resolve st True (fsys_root fsys) = Inr (cwd st @ ds)"
    using f resolve_join_plain [OF ds(2,1)] walk_real [OF wf d0 ds(1)] by simp
  from dirfs_read_below [OF wf this d0 nl rd] show ?thesis by simp
qed

theorem root_read_contained_witness:
  "chroot_new chroot_fs_example (join_with slash [''root'']) = Inr (chroot_fs_example, example_fsys) \<and>
   wf_fs chroot_fs_example \<and> list_all plain_name [''root''] \<and> [''root''] \<noteq> [] \<and>
   node_at chroot_fs_example (cwd chroot_fs_example @ [''root'']) = Some Dir \<and>
   no_links_under chroot_fs_example (cwd chroot_fs_example @ [''root'']) \<and>
   fs_read_file (root_fs chroot_fs_example example_fsys) ''a'' = Inr [7] \<and>
   fs_read_file (root_fs chroot_fs_example example_fsys) ''../root/a'' = Inl EINVAL \<and>
   (\<exists>r. r \<noteq> [] \<and> list_all plain_name r \<and>
      node_at chroot_fs_example (cwd chroot_fs_example @ [''root''] @ r) = Some (File [7]))"
proof -
  have new: "chroot_new chroot_fs_example (join_with slash [''root'']) = Inr (chroot_fs_example, example_fsys)"
    by (simp add: chroot_new_def os_mkdir_def resolve_def chroot_fs_example_def example_fsys_def fs_simps go_simps)
  have wf: "wf_fs chroot_fs_example" by (simp add: chroot_fs_example_def fs_simps go_simps)
  have ds: "list_all plain_name [''root'']" "[''root''] \<noteq> []" by (simp_all add: plain_name_def)
  have d: "node_at chroot_fs_example (cwd chroot_fs_example @ [''root'']) = Some Dir"
    by (simp add: chroot_fs_example_def fs_simps)
  have nl: "no_links_under chroot_fs_example (cwd chroot_fs_example @ [''root''])"
    by (simp add: chroot_fs_example_def fs_simps)
  have rd: "fs_read_file (root_fs chroot_fs_example example_fsys) ''a'' = Inr [7]"
    by (simp add: root_fs_def dir_fs_def dirfs_call_def dirfs_name_def valid_path_def valid_elems.simps
        os_read_file_def resolve_def chroot_fs_example_def example_fsys_def fs_simps go_simps)
  have bad: "fs_read_file (root_fs chroot_fs_example example_fsys) ''../root/a'' = Inl EINVAL"
    by (simp add: root_fs_def dir_fs_def dirfs_call_def valid_path_def valid_elems.simps example_fsys_def)
  from root_read_contained [OF new wf ds d nl rd] new wf ds d nl rd bad show ?thesis by blast
qed

end
