(* ===== verification/Concurrency.thy ===== *)
theory Concurrency
  imports Upload
begin

text \<open>
  \<open>net/http\<close> serves every request on its own goroutine, and \<open>createFileRecursive\<close>
  changes the working directory of the whole process with \<open>os.Chdir\<close>. This theory
  runs \<open>createFileRecursive\<close> one system call at a time: a thread is its program
  counter (\<open>cfr_pc\<close>) with the local \<open>olddir\<close> and \<open>dirs\<close>, \<open>cfr_step\<close> makes
  one call on the shared store (\<open>Getwd\<close>, one \<open>Mkdir\<close> of
  \<open>createFolderIfNotExists\<close>, one \<open>Chdir\<close>, the \<open>Create\<close>, or the deferred
  \<open>Chdir(olddir)\<close>), and \<open>run_sched\<close> runs any number of threads under a schedule,
  the list of the threads the Go scheduler lets make a call. One thread alone computes
  exactly \<open>create_file_recursive\<close>, and several threads keep the store well formed in
  every interleaving; but on every store, two requests whose calls interleave as
  described in C24 leave the process in the first request's first directory.
\<close>

section \<open>createFileRecursive, one system call at a time\<close>

datatype cfr_pc =
    CGetwd
  | CMkdir "string list"
  | CChdir string "string list"
  | CCreate
  | CDefer "os_error + os_file option"
  | CDone "os_error + os_file option"

record cfr_thread =
  t_olddir :: string
  t_dirs :: "string list"
  t_pc :: cfr_pc

definition cfr_start :: "string \<Rightarrow> cfr_thread" where
  "cfr_start filepath =
     \<lparr>t_olddir = [], t_dirs = split_on slash (trim_prefix (clean filepath) ''/''), t_pc = CGetwd\<rparr>"

definition cfr_step :: "fs_state \<Rightarrow> cfr_thread \<Rightarrow> fs_state \<times> cfr_thread" where
  "cfr_step st t =
     (case t_pc t of
        CGetwd \<Rightarrow> (st, t\<lparr>t_olddir := os_getwd st, t_pc := CMkdir (butlast (t_dirs t))\<rparr>)
      | CMkdir [] \<Rightarrow> (st, t\<lparr>t_pc := (if last (t_dirs t) \<noteq> [] then CCreate else CDefer (Inr None))\<rparr>)
      | CMkdir (d # ds) \<Rightarrow>
          (case create_folder_if_not_exists st d of
             (st1, Some e) \<Rightarrow> (st1, t\<lparr>t_pc := CDefer (Inl e)\<rparr>)
           | (st1, None) \<Rightarrow> (st1, t\<lparr>t_pc := CChdir d ds\<rparr>))
      | CChdir d ds \<Rightarrow>
          (case os_chdir st d of
             Inl e \<Rightarrow> (st, t\<lparr>t_pc := CDefer (Inl e)\<rparr>)
           | Inr st2 \<Rightarrow> (st2, t\<lparr>t_pc := CMkdir ds\<rparr>))
      | CCreate \<Rightarrow>
          (case os_create st (last (t_dirs t)) of
             Inl e \<Rightarrow> (st, t\<lparr>t_pc := CDefer (Inl e)\<rparr>)
           | Inr (st2, f) \<Rightarrow> (st2, t\<lparr>t_pc := CDefer (Inr (Some f))\<rparr>))
      | CDefer r \<Rightarrow> (restore_dir st (t_olddir t), t\<lparr>t_pc := CDone r\<rparr>)
      | CDone r \<Rightarrow> (st, t))"

text \<open>The calls a thread has left at most, which every step of an unfinished thread lowers.\<close>

definition cfr_rank :: "cfr_thread \<Rightarrow> nat" where
  "cfr_rank t =
     (case t_pc t of
        CGetwd \<Rightarrow> 2 * length (butlast (t_dirs t)) + 4
      | CMkdir ds \<Rightarrow> 2 * length ds + 3
      | CChdir d ds \<Rightarrow> 2 * length ds + 4
      | CCreate \<Rightarrow> 2
      | CDefer r \<Rightarrow> 1
      | CDone r \<Rightarrow> 0)"

definition cfr_done :: "cfr_thread \<Rightarrow> bool" where
  "cfr_done t \<longleftrightarrow> (case t_pc t of CDone r \<Rightarrow> True | _ \<Rightarrow> False)"

lemma cfr_step_rank: "\<not> cfr_done t \<Longrightarrow> cfr_step st t = (st', t') \<Longrightarrow> cfr_rank t' < cfr_rank t"
  by (auto simp: cfr_step_def cfr_rank_def cfr_done_def
      split: cfr_pc.splits list.splits prod.splits option.splits sum.splits if_splits)

lemma cfr_step_rank_case:
  "\<not> cfr_done t \<Longrightarrow> (case cfr_step st t of (st', t') \<Rightarrow> cfr_rank t') < cfr_rank t"
  by (cases "cfr_step st t") (simp add: cfr_step_rank)

text \<open>A thread run alone to its end.\<close>

function cfr_run :: "fs_state \<Rightarrow> cfr_thread \<Rightarrow> fs_state \<times> (os_error + os_file option)" where
  "cfr_run st t =
     (case t_pc t of
        CDone r \<Rightarrow> (st, r)
      | _ \<Rightarrow> (case cfr_step st t of (st', t') \<Rightarrow> cfr_run st' t'))"
  by pat_completeness auto
termination
  by (relation "measure (\<lambda>(st, t). cfr_rank t)")
    (auto simp: cfr_done_def intro!: cfr_step_rank_case)

declare cfr_run.simps [simp del]

section \<open>Goroutines under a schedule\<close>

text \<open>
  The scheduler lets thread \<open>i\<close> make its next call; an index with no thread is
  skipped, and a finished thread stays as it is.
\<close>

fun run_sched :: "nat list \<Rightarrow> fs_state \<Rightarrow> cfr_thread list \<Rightarrow> fs_state \<times> cfr_thread list" where
  "run_sched [] st ts = (st, ts)"
| "run_sched (i # is) st ts =
     (if i < length ts then (case cfr_step st (ts ! i) of (st', t') \<Rightarrow> run_sched is st' (ts[i := t']))
      else run_sched is st ts)"

section \<open>One thread alone\<close>

lemma cfr_run_done: "cfr_run st (t\<lparr>t_pc := CDone r\<rparr>) = (st, r)"
  by (simp add: cfr_run.simps)

lemma cfr_run_step: "\<not> cfr_done t \<Longrightarrow> cfr_run st t = (case cfr_step st t of (st', t') \<Rightarrow> cfr_run st' t')"
  by (subst cfr_run.simps) (auto simp: cfr_done_def split: cfr_pc.splits)

lemma cfr_run_defer: "cfr_run st (t\<lparr>t_pc := CDefer r\<rparr>) = (restore_dir st (t_olddir t), r)"
  by (simp add: cfr_run_step cfr_done_def cfr_step_def cfr_run_done)

text \<open>After the loop: \<open>Create\<close> of the last element, or nothing, then the deferred call.\<close>

lemma cfr_run_tail:
  "t_pc t = CMkdir [] \<Longrightarrow>
   cfr_run st t =
     (if last (t_dirs t) \<noteq> []
      then (case os_create st (last (t_dirs t)) of
              Inl e \<Rightarrow> (restore_dir st (t_olddir t), Inl e)
            | Inr (st2, f) \<Rightarrow> (restore_dir st2 (t_olddir t), Inr (Some f)))
      else (restore_dir st (t_olddir t), Inr None))"
proof (cases "last (t_dirs t) \<noteq> []")
  case True
  assume pc: "t_pc t = CMkdir []"
  then have s: "cfr_run st t = cfr_run st (t\<lparr>t_pc := CCreate\<rparr>)"
    using True by (simp add: cfr_run_step cfr_done_def cfr_step_def)
  show ?thesis
  proof (cases "os_create st (last (t_dirs t))")
    case (Inl e)
    with s True show ?thesis by (simp add: cfr_run_step cfr_done_def cfr_step_def cfr_run_defer)
  next
    case (Inr x)
    with s True show ?thesis
      by (cases x) (simp add: cfr_run_step cfr_done_def cfr_step_def cfr_run_defer)
  qed
next
  case False
  assume "t_pc t = CMkdir []"
  with False show ?thesis by (simp add: cfr_run_step cfr_done_def cfr_step_def cfr_run_defer)
qed

text \<open>The loop over \<open>dirs[:len(dirs)-1]\<close>, call by call, is \<open>mkdir_chdir_loop\<close>.\<close>

lemma cfr_run_loop:
  "t_pc t = CMkdir ds \<Longrightarrow>
   cfr_run st t =
     (case mkdir_chdir_loop st ds of
        (st1, Some e) \<Rightarrow> (restore_dir st1 (t_olddir t), Inl e)
      | (st1, None) \<Rightarrow> cfr_run st1 (t\<lparr>t_pc := CMkdir []\<rparr>))"
proof (induction ds arbitrary: st t)
  case Nil
  then show ?case by (cases t) simp
next
  case (Cons d ds)
  obtain st1 r where c: "create_folder_if_not_exists st d = (st1, r)" by fastforce
  show ?case
  proof (cases r)
    case (Some e)
    with Cons.prems c show ?thesis
      by (simp add: cfr_run_step cfr_done_def cfr_step_def cfr_run_defer)
  next
    case None
    show ?thesis
    proof (cases "os_chdir st1 d")
      case (Inl e)
      with Cons.prems c None show ?thesis
        by (simp add: cfr_run_step cfr_done_def cfr_step_def cfr_run_defer)
    next
      case (Inr st2)
      have "cfr_run st t = cfr_run st2 (t\<lparr>t_pc := CMkdir ds\<rparr>)"
        using Cons.prems c None Inr by (simp add: cfr_run_step cfr_done_def cfr_step_def)
      also have "\<dots> = (case mkdir_chdir_loop st2 ds of
            (st1, Some e) \<Rightarrow> (restore_dir st1 (t_olddir t), Inl e)
          | (st1, None) \<Rightarrow> cfr_run st1 (t\<lparr>t_pc := CMkdir []\<rparr>))"
        using Cons.IH [of "t\<lparr>t_pc := CMkdir ds\<rparr>" st2] by simp
      finally show ?thesis using c None Inr by simp
    qed
  qed
qed

section \<open>Every interleaving keeps the store well formed\<close>

lemma restore_dir_wf_keeps:
  assumes wf: "wf_fs st"
  shows "wf_fs (restore_dir st d) \<and> keeps_dirs st (restore_dir st d)"
proof (cases "os_chdir st d")
  case (Inl e)
  with wf show ?thesis by (simp add: restore_dir_def)
next
  case (Inr st2)
  with os_chdir_wf [OF wf Inr] os_chdir_keeps [OF Inr] show ?thesis by (simp add: restore_dir_def)
qed

lemma cfr_step_wf:
  assumes wf: "wf_fs st" and s: "cfr_step st t = (st', t')"
  shows "wf_fs st' \<and> keeps_dirs st st'"
proof (cases "t_pc t")
  case (CMkdir ds)
  show ?thesis
  proof (cases ds)
    case (Cons d ds')
    obtain st1 r where c: "create_folder_if_not_exists st d = (st1, r)" by fastforce
    with s CMkdir Cons have "st' = st1" by (cases r) (simp_all add: cfr_step_def)
    with create_folder_wf [OF wf c] show ?thesis by simp
  qed (use s CMkdir wf in \<open>simp add: cfr_step_def\<close>)
next
  case (CChdir d ds)
  show ?thesis
  proof (cases "os_chdir st d")
    case (Inr st2)
    with s CChdir have "st' = st2" by (simp add: cfr_step_def)
    with os_chdir_wf [OF wf Inr] os_chdir_keeps [OF Inr] show ?thesis by simp
  qed (use s CChdir wf in \<open>simp add: cfr_step_def\<close>)
next
  case CCreate
  show ?thesis
  proof (cases "os_create st (last (t_dirs t))")
    case (Inr x)
    obtain st2 f where x: "x = (st2, f)" by fastforce
    with s CCreate Inr have "st' = st2" by (simp add: cfr_step_def)
    with os_create_wf [OF wf Inr [unfolded x]] os_create_keeps [OF Inr [unfolded x]] show ?thesis by simp
  qed (use s CCreate wf in \<open>simp add: cfr_step_def\<close>)
next
  case (CDefer r)
  with s restore_dir_wf_keeps [OF wf] show ?thesis by (auto simp: cfr_step_def)
qed (use s wf in \<open>simp_all add: cfr_step_def\<close>)

section \<open>One thread alone, as a function\<close>

text \<open>
  Run alone, the thread makes its calls in the order the code makes them and ends in
  exactly the state and result of \<open>create_file_recursive\<close>, errors included.
\<close>

lemma cfr_run_eq: "cfr_run st (cfr_start filepath) = create_file_recursive st filepath"
proof -
  let ?t = "cfr_start filepath"
  let ?t1 = "?t\<lparr>t_olddir := os_getwd st, t_pc := CMkdir (butlast (t_dirs ?t))\<rparr>"
  have "cfr_run st ?t = cfr_run st ?t1"
    by (simp add: cfr_run_step cfr_done_def cfr_step_def cfr_start_def)
  also have "\<dots> = create_file_recursive st filepath"
    using cfr_run_loop [of ?t1 "butlast (t_dirs ?t)" st] cfr_run_tail
    by (auto simp: create_file_recursive_def cfr_start_def Let_def split: prod.splits option.splits sum.splits)
  finally show ?thesis .
qed

text \<open>
  Under every schedule of any number of threads, each system call atomic, the store
  stays well formed and no directory is removed or replaced.
\<close>

lemma run_sched_wf:
  "wf_fs st \<Longrightarrow> run_sched sched st ts = (st', ts') \<Longrightarrow> wf_fs st' \<and> keeps_dirs st st'"
proof (induction sched st ts rule: run_sched.induct)
  case (1 st ts)
  then show ?case by (simp add: keeps_dirs_def)
next
  case (2 i js st ts)
  show ?case
  proof (cases "i < length ts")
    case True
    obtain st1 t1 where s: "cfr_step st (ts ! i) = (st1, t1)" by fastforce
    from cfr_step_wf [OF "2.prems"(1) s] have "wf_fs st1" "keeps_dirs st st1" by simp_all
    moreover from "2.prems"(2) True s have "run_sched js st1 (ts[i := t1]) = (st', ts')" by simp
    ultimately have "wf_fs st' \<and> keeps_dirs st1 st'" using "2.IH"(1) [OF True s [symmetric]] by blast
    with \<open>keeps_dirs st st1\<close> show ?thesis by (auto intro: keeps_dirs_trans)
  next
    case False
    with "2.IH"(2) "2.prems" show ?thesis by simp
  qed
qed

lemma plain_join_not_rooted: "list_all plain_name ns \<Longrightarrow> ns \<noteq> [] \<Longrightarrow> \<not> is_rooted (join_with slash ns)"
proof (cases ns)
  case (Cons w ws)
  assume "list_all plain_name ns"
  with Cons have w: "w \<noteq> [] \<and> hd w \<noteq> slash" by (cases w) (auto simp: plain_name_def)
  with Cons show ?thesis by (cases ws) (simp_all add: is_rooted_def)
qed simp

lemma cfr_start_plain:
  assumes pl: "list_all plain_name ns" and ne: "ns \<noteq> []"
  shows "t_dirs (cfr_start (join_with slash ns)) = ns"
proof -
  have sp: "split_on slash (join_with slash ns) = ns"
    using pl ne by (intro split_on_join) (auto simp: list_all_iff plain_name_def)
  have nr: "\<not> is_rooted (join_with slash ns)" by (rule plain_join_not_rooted [OF pl ne])
  have ce: "clean_elems (join_with slash ns) = ns"
    using pl nr by (simp add: clean_elems_def sp clean_segs_def foldl_clean_step_plain)
  have "clean (join_with slash ns) = join_with slash ns"
    using ce nr ne by (simp add: clean_eq [of "join_with slash ns"])
  then show ?thesis using nr sp by (simp add: cfr_start_def trim_prefix_not_rooted)
qed

lemma cfr_rank_zero: "cfr_rank t = 0 \<longleftrightarrow> cfr_done t"
  by (simp add: cfr_rank_def cfr_done_def split: cfr_pc.splits)

lemma cfr_step_done: "cfr_done t \<Longrightarrow> cfr_step st t = (st, t)"
  by (auto simp: cfr_step_def cfr_done_def split: cfr_pc.splits)

lemma run_sched_append:
  "run_sched (xs @ ys) st ts = (case run_sched xs st ts of (st', ts') \<Rightarrow> run_sched ys st' ts')"
  by (induction xs st ts rule: run_sched.induct) (simp_all split: prod.splits)

text \<open>A thread scheduled at least as often as it has calls left runs to its end alone.\<close>

lemma run_sched_alone:
  "i < length ts \<Longrightarrow> cfr_rank (ts ! i) \<le> n \<Longrightarrow>
   \<exists>t'. cfr_done t' \<and> run_sched (replicate n i) st ts = (fst (cfr_run st (ts ! i)), ts[i := t'])"
proof (induction n arbitrary: st ts)
  case 0
  then have d: "cfr_done (ts ! i)" by (simp add: cfr_rank_zero)
  then obtain r where "t_pc (ts ! i) = CDone r" by (auto simp: cfr_done_def split: cfr_pc.splits)
  then have "cfr_run st (ts ! i) = (st, r)" by (simp add: cfr_run.simps)
  with d show ?case by auto
next
  case (Suc n)
  obtain st1 t1 where s: "cfr_step st (ts ! i) = (st1, t1)" by fastforce
  have run: "run_sched (replicate (Suc n) i) st ts = run_sched (replicate n i) st1 (ts[i := t1])"
    using Suc.prems(1) s by simp
  show ?case
  proof (cases "cfr_done (ts ! i)")
    case True
    with s have "st1 = st" "t1 = ts ! i" by (simp_all add: cfr_step_done)
    moreover have "cfr_rank (ts ! i) \<le> n" using True cfr_rank_zero [of "ts ! i"] by simp
    ultimately show ?thesis using run Suc.IH [of ts st] Suc.prems(1) by simp
  next
    case False
    have r: "cfr_rank t1 \<le> n" using cfr_step_rank [OF False s] Suc.prems(2) by simp
    obtain t' where "cfr_done t'"
      and "run_sched (replicate n i) st1 (ts[i := t1]) = (fst (cfr_run st1 t1), (ts[i := t1])[i := t'])"
      using Suc.IH [of "ts[i := t1]" st1] Suc.prems(1) r by auto
    moreover have "cfr_run st (ts ! i) = cfr_run st1 t1" using cfr_run_step [OF False] s by simp
    ultimately show ?thesis using run by auto
  qed
qed

text \<open>
  Past its \<open>Getwd\<close>, a thread keeps its \<open>olddir\<close> and ends with the deferred
  \<open>Chdir(olddir)\<close> on a well-formed store that kept every directory.
\<close>

lemma cfr_step_mid:
  "t_pc t \<noteq> CGetwd \<Longrightarrow> \<not> cfr_done t \<Longrightarrow> (\<forall>r. t_pc t \<noteq> CDefer r) \<Longrightarrow> cfr_step st t = (st', t') \<Longrightarrow>
   t_olddir t' = t_olddir t \<and> t_pc t' \<noteq> CGetwd \<and> \<not> cfr_done t'"
  by (auto simp: cfr_step_def cfr_done_def
      split: cfr_pc.splits list.splits prod.splits option.splits sum.splits if_splits)

lemma cfr_run_restores:
  "wf_fs st \<Longrightarrow> t_pc t \<noteq> CGetwd \<Longrightarrow> \<not> cfr_done t \<Longrightarrow>
   \<exists>st2. fst (cfr_run st t) = restore_dir st2 (t_olddir t) \<and> wf_fs st2 \<and> keeps_dirs st st2"
proof (induction "cfr_rank t" arbitrary: st t rule: less_induct)
  case less
  show ?case
  proof (cases "\<exists>r. t_pc t = CDefer r")
    case True
    then obtain r where "t_pc t = CDefer r" by blast
    then have "t = t\<lparr>t_pc := CDefer r\<rparr>" by simp
    then have "cfr_run st t = (restore_dir st (t_olddir t), r)" by (metis cfr_run_defer)
    with less.prems(1) show ?thesis by auto
  next
    case False
    obtain st1 t1 where s: "cfr_step st t = (st1, t1)" by fastforce
    from cfr_step_mid [OF less.prems(2,3) _ s] False
    have m: "t_olddir t1 = t_olddir t" "t_pc t1 \<noteq> CGetwd" "\<not> cfr_done t1" by auto
    from cfr_step_wf [OF less.prems(1) s] have w1: "wf_fs st1" and k1: "keeps_dirs st st1" by simp_all
    from less.hyps [OF cfr_step_rank [OF less.prems(3) s] w1 m(2,3)] obtain st2 where
      "fst (cfr_run st1 t1) = restore_dir st2 (t_olddir t1)" "wf_fs st2" "keeps_dirs st1 st2" by blast
    moreover have "cfr_run st t = cfr_run st1 t1" using cfr_run_step [OF less.prems(3)] s by simp
    ultimately show ?thesis using m(1) k1 by (auto intro: keeps_dirs_trans)
  qed
qed


section \<open>Properties of concurrent requests\<close>

definition drift_store :: fs_state where
  "drift_store = \<lparr>fs_entries = [([''srv''], Dir)], cwd = [''srv'']\<rparr>"

text \<open>
  C24. Concurrent requests break the restore of the working directory. Take any
  well-formed store, any request whose path is a relative path of plain names
  \<open>d/xs\<close> with at least one directory level, where \<open>d\<close> is absent or a
  directory, and any second request with any path. Let the first request make its
  \<open>Getwd\<close>, \<open>Mkdir(d)\<close> and \<open>Chdir(d)\<close>, then the second its \<open>Getwd\<close>, then
  each run to its end. Whatever the two calls find, succeed or fail, the process is
  left in \<open>d\<close>, so every later request works below it. Run one after the other, the
  same two requests leave the working directory where it was.
\<close>

theorem concurrent_chdir_drift:
  assumes wf: "wf_fs st" and pl: "list_all plain_name (d # xs)" and xs: "xs \<noteq> []"
    and dn: "node_at st (cwd st @ [d]) = None \<or> node_at st (cwd st @ [d]) = Some Dir"
    and n: "2 * length xs + 1 \<le> n" and m: "cfr_rank (cfr_start p) \<le> Suc m"
  shows "cwd (fst (run_sched ([0, 0, 0, 1] @ replicate n 0 @ replicate m 1) st
            [cfr_start (join_with slash (d # xs)), cfr_start p])) = cwd st @ [d] \<and>
         cwd (fst (run_sched (replicate (n + 3) 0 @ replicate (Suc m) 1) st
            [cfr_start (join_with slash (d # xs)), cfr_start p])) = cwd st"
proof -
  define t0 where "t0 = cfr_start (join_with slash (d # xs))"
  define t1 where "t1 = cfr_start p"
  let ?t0 = t0 and ?t1 = t1
  have dirs: "t_dirs ?t0 = d # xs" using cfr_start_plain [OF pl] by (simp add: t0_def)
  have b: "butlast (d # xs) = d # butlast xs" using xs by simp
  have g: "t_pc ?t0 = CGetwd" "t_pc ?t1 = CGetwd" by (simp_all add: t0_def t1_def cfr_start_def)
  from pl have pd: "plain_name d" by simp
  define st1 where "st1 = (if node_at st (cwd st @ [d]) \<noteq> None then st else set_node st (cwd st @ [d]) Dir)"
  have cf: "create_folder_if_not_exists st d = (st1, None)"
    using create_folder_plain [OF pd, of st] by (simp add: st1_def)
  from create_folder_wf [OF wf cf] have w1: "wf_fs st1" and k1: "keeps_dirs st st1" and c1: "cwd st1 = cwd st"
    by simp_all
  have n1: "node_at st1 (cwd st @ [d]) = Some Dir" using dn by (auto simp: st1_def node_at_set_node)
  let ?st2 = "st1\<lparr>cwd := cwd st @ [d]\<rparr>"
  have ch: "os_chdir st1 d = Inr ?st2" using os_chdir_plain [OF pd, of st1] n1 c1 by (simp add: is_link_def)
  have w2: "wf_fs ?st2" using os_chdir_wf [OF w1 ch] .
  let ?u0 = "?t0\<lparr>t_olddir := os_getwd st, t_pc := CMkdir (butlast xs)\<rparr>"
  let ?u1 = "?t1\<lparr>t_olddir := os_getwd ?st2, t_pc := CMkdir (butlast (t_dirs ?t1))\<rparr>"
  have pre: "run_sched [0, 0, 0, 1] st [?t0, ?t1] = (?st2, [?u0, ?u1])"
    using g cf ch c1 xs by (simp add: cfr_step_def dirs)
  have r0: "cfr_rank ?u0 \<le> n" using n xs by (cases xs) (simp_all add: cfr_rank_def)
  have r1: "cfr_rank ?u1 \<le> m" using m g(2) by (simp add: cfr_rank_def t1_def [symmetric])
  have nd: "t_pc ?u0 \<noteq> CGetwd" "\<not> cfr_done ?u0" "t_pc ?u1 \<noteq> CGetwd" "\<not> cfr_done ?u1"
    by (simp_all add: cfr_done_def)
  obtain v0 where v0: "run_sched (replicate n 0) ?st2 [?u0, ?u1] = (fst (cfr_run ?st2 ?u0), [v0, ?u1])"
    using run_sched_alone [of 0 "[?u0, ?u1]" n ?st2] r0 by auto
  obtain A where A: "fst (cfr_run ?st2 ?u0) = restore_dir A (os_getwd st)" "wf_fs A" "keeps_dirs ?st2 A"
    using cfr_run_restores [OF w2 nd(1,2)] by auto
  have kA: "keeps_dirs st A" using k1 A(3) by (simp add: keeps_dirs_def)
  let ?S3 = "A\<lparr>cwd := cwd st\<rparr>"
  have S3: "fst (cfr_run ?st2 ?u0) = ?S3" "wf_fs ?S3" using restore_dir_getwd [OF wf A(2) kA] A(1) by simp_all
  obtain v1 where v1: "run_sched (replicate m 1) ?S3 [v0, ?u1] = (fst (cfr_run ?S3 ?u1), [v0, v1])"
    using run_sched_alone [of 1 "[v0, ?u1]" m ?S3] r1 by auto
  obtain B where B: "fst (cfr_run ?S3 ?u1) = restore_dir B (os_getwd ?st2)" "wf_fs B" "keeps_dirs ?S3 B"
    using cfr_run_restores [OF S3(2) nd(3,4)] by auto
  have kB: "keeps_dirs ?st2 B" using A(3) B(3) by (simp add: keeps_dirs_def)
  have drift: "cwd (fst (cfr_run ?S3 ?u1)) = cwd st @ [d]"
    using restore_dir_getwd [OF w2 B(2) kB] B(1) by simp
  have first: "cwd (fst (run_sched ([0, 0, 0, 1] @ replicate n 0 @ replicate m 1) st [?t0, ?t1])) = cwd st @ [d]"
  proof -
    have "run_sched ([0, 0, 0, 1] @ replicate n 0 @ replicate m 1) st [?t0, ?t1] =
        (fst (cfr_run ?S3 ?u1), [v0, v1])"
      by (simp only: run_sched_append pre v0 S3(1) v1 prod.case)
    with drift show ?thesis by simp
  qed
  have rs0: "cfr_rank ?t0 \<le> n + 3" using n g(1) dirs xs by (simp add: cfr_rank_def)
  obtain v0' where s0: "run_sched (replicate (n + 3) 0) st [?t0, ?t1] = (fst (cfr_run st ?t0), [v0', ?t1])"
    using run_sched_alone [of 0 "[?t0, ?t1]" "n + 3" st] rs0 by auto
  obtain S r where S: "create_file_recursive st (join_with slash (d # xs)) = (S, r)" by fastforce
  from create_file_recursive_cwd_wf [OF wf S] have cS: "cwd S = cwd st" and wS: "wf_fs S" by simp_all
  have e0: "fst (cfr_run st ?t0) = S" using cfr_run_eq S by (simp add: t0_def)
  obtain v1' where s1: "run_sched (replicate (Suc m) 1) S [v0', ?t1] = (fst (cfr_run S ?t1), [v0', v1'])"
    using run_sched_alone [of 1 "[v0', ?t1]" "Suc m" S] m by (auto simp: t1_def)
  obtain S' r' where S': "create_file_recursive S p = (S', r')" by fastforce
  from create_file_recursive_cwd_wf [OF wS S'] cS have "cwd S' = cwd st" by simp
  then have second: "cwd (fst (run_sched (replicate (n + 3) 0 @ replicate (Suc m) 1) st [?t0, ?t1])) = cwd st"
  proof -
    have "run_sched (replicate (n + 3) 0 @ replicate (Suc m) 1) st [?t0, ?t1] = (fst (cfr_run S ?t1), [v0', v1'])"
      by (simp only: run_sched_append s0 e0 s1 prod.case)
    with cfr_run_eq [of S p] S' \<open>cwd S' = cwd st\<close> show ?thesis by (simp add: t1_def)
  qed
  from first second show ?thesis unfolding t0_def t1_def ..
qed

theorem concurrent_chdir_drift_witness:
  "wf_fs drift_store \<and> list_all plain_name [''chroot'', ''a'', ''x''] \<and> [''a'', ''x''] \<noteq> [] \<and>
   (node_at drift_store (cwd drift_store @ [''chroot'']) = None \<or>
    node_at drift_store (cwd drift_store @ [''chroot'']) = Some Dir) \<and>
   2 * length [''a'', ''x''] + 1 \<le> (5 :: nat) \<and> cfr_rank (cfr_start ''chroot/b/y'') \<le> Suc 7 \<and>
   cwd (fst (run_sched ([0, 0, 0, 1] @ replicate 5 0 @ replicate 7 1) drift_store
     [cfr_start (join_with slash [''chroot'', ''a'', ''x'']), cfr_start ''chroot/b/y''])) = [''srv'', ''chroot''] \<and>
   cwd (fst (run_sched (replicate (5 + 3) 0 @ replicate (Suc 7) 1) drift_store
     [cfr_start (join_with slash [''chroot'', ''a'', ''x'']), cfr_start ''chroot/b/y''])) = [''srv'']"
proof -
  have wf: "wf_fs drift_store" by (simp add: drift_store_def fs_simps go_simps)
  have pl: "list_all plain_name [''chroot'', ''a'', ''x'']" by (simp add: go_simps)
  have xs: "[''a'', ''x''] \<noteq> []" by simp
  have dn: "node_at drift_store (cwd drift_store @ [''chroot'']) = None \<or>
      node_at drift_store (cwd drift_store @ [''chroot'']) = Some Dir"
    by (simp add: drift_store_def fs_simps)
  have n: "2 * length [''a'', ''x''] + 1 \<le> (5 :: nat)" by simp
  have m: "cfr_rank (cfr_start ''chroot/b/y'') \<le> Suc 7"
    by (simp add: cfr_rank_def cfr_start_def go_simps)
  have c: "cwd drift_store = [''srv'']" by (simp add: drift_store_def)
  from concurrent_chdir_drift [OF wf pl xs dn n m] c wf pl xs dn n m show ?thesis by simp
qed

end
