(* ===== verification/Spec2Isabelle.thy ===== *)
theory Spec2Isabelle
  imports Startup ChrootFS Concurrency
begin

text \<open>
  \<^bold>\<open>A verification model of redkit/redbag.\<close>

  The repository holds two small Go HTTP servers and a helper package.
  \<^item> \<open>src/main.go\<close>, the upload server: \<open>chrootHandler\<close> (POST \<open>/chroot\<close>)
    stores every multipart file field as a file below \<open>chroot/\<close> of the working
    directory, reading the field name as a relative path and creating the directories on
    the way with \<open>createFileRecursive\<close> and \<open>createFolderIfNotExists\<close>;
    \<open>uploadHandler\<close> (POST \<open>/upload\<close>) stores every field as one file directly in
    \<open>uploads/\<close>, the slashes of its name replaced by underscores. The parts of a field
    are appended in the order they arrive.
  \<^item> \<open>src/cmd/redkit/main.go\<close>, the kit server: \<open>serveFiles\<close> (GET
    \<open>/kit/NAME\<close>) finds \<open>NAME\<close> among the entries of the kits directory and writes
    \<open>kits/NAME/bin\<close> as a zip archive built by \<open>zipDirFull\<close> into a
    \<open>bufio.Writer\<close> around the response; \<open>zipDirFull\<close> walks the tree with
    \<open>fs.WalkDir\<close> and calls \<open>followIfSymlink\<close> on every entry.
  \<^item> \<open>src/pkg/chroot\<close>: a \<open>FileSystem\<close> rooted at a directory, with \<open>New\<close>,
    \<open>CreateFile\<close> and \<open>CreateDirectory\<close>. No other file of the repository uses it.
  All three act on one shared state, the file system and the process's working
  directory, which the theory \<open>OsFs\<close> models; they do not call each other. The two
  servers run as two processes on the same file system, each with its own working
  directory, and their clients' requests arrive in any order.

  \<^bold>\<open>Theories.\<close>
  \<^item> \<open>Prelude\<close>: types of the model (bytes as \<open>8 word\<close> lists, paths as lists of
    names), the theorem collections \<open>go_simps\<close> and \<open>fs_simps\<close> that evaluate the
    model on concrete inputs, and Go's \<open>strings\<close> functions (\<open>Split\<close>, \<open>Join\<close>,
    \<open>TrimPrefix\<close>, \<open>ReplaceAll\<close>, \<open>HasSuffix\<close>) with their round-trip lemmas.
  \<^item> \<open>GoPath\<close>: Go's \<open>path.Clean\<close> and \<open>path.Join\<close> (library code, modelled
    from the Go implementation): the normal form of a cleaned path, idempotence, and
    the shape of \<open>Join(x, Clean(f))\<close>, the expression both upload handlers use.
  \<^item> \<open>OsFs\<close>: the Linux file system and process state the \<open>os\<close> package acts on
    (library and kernel, modelled from their documentation): a store from absolute
    paths to directories, files and symbolic links, the working directory, path
    resolution with the kernel's budget of 40 symbolic links (\<open>ELOOP\<close> beyond it),
    and the calls the sources make (\<open>Mkdir\<close>, \<open>Chdir\<close>, \<open>Create\<close>,
    \<open>Open\<close>, \<open>Stat\<close>, \<open>Lstat\<close>, \<open>Readlink\<close>, \<open>ReadDir\<close>, \<open>Getwd\<close>,
    \<open>MkdirAll\<close>, file \<open>Write\<close>, \<open>Stat\<close> and \<open>Chdir\<close>). Lemmas: resolution of
    plain names, of real directory paths and through links, the well-formedness
    invariant \<open>wf_fs\<close> and its preservation by every call, and frame properties
    (\<open>unchanged_outside\<close>, \<open>keeps_dirs\<close>, \<open>no_links_under\<close>).
  \<^item> \<open>Upload\<close>: \<open>src/main.go\<close>'s handlers and helpers, one definition per Go
    function or loop (\<open>create_folder_if_not_exists\<close>, \<open>mkdir_chdir_loop\<close>,
    \<open>restore_dir\<close> for the deferred \<open>Chdir\<close>, \<open>create_file_recursive\<close>,
    \<open>copy_parts\<close>, \<open>chroot_target\<close>, \<open>chroot_files\<close>, \<open>chroot_handler\<close>,
    \<open>upload_target\<close>, \<open>upload_files\<close>, \<open>upload_handler\<close>); a handler is a function
    from the store and the parsed request to the new store and the reply. Claims C1 to C6
    and C14.
  \<^item> \<open>Kit\<close>: \<open>src/cmd/redkit/main.go\<close>: file modes as 32-bit words,
    \<open>follow_if_symlink\<close> (a \<open>partial_function\<close> in the option monad, with the
    deferred \<open>Chdir\<close> as \<open>defer_chdir\<close>), the \<open>WalkDir\<close> callback
    \<open>zip_visit\<close>, \<open>fs.WalkDir\<close> as \<open>walk_dir\<close> and \<open>walk_entries\<close>,
    \<open>zip_dir_full\<close>, \<open>kit_loop\<close> and \<open>serve_files\<close>, and Go's
    \<open>bufio.Writer\<close> (\<open>bufio_write\<close>). Panics of \<open>Unwrap\<close> and \<open>Check\<close> are
    values. Claims C7 to C9.
  \<^item> \<open>ChrootPkg\<close>: \<open>src/pkg/chroot/chroot.go\<close>: the \<open>FileSystem\<close> record,
    \<open>chroot_new\<close>, \<open>create_file\<close> and \<open>create_directory\<close>, with the behaviour of
    \<open>MkdirAll\<close> on paths of plain names. Claims C10 to C13.
  \<^item> \<open>Server\<close>: the two \<open>main\<close> functions' routing (\<open>/chroot\<close>,
    \<open>/upload\<close>, \<open>/kit/\<close>) over one shared store: the record \<open>system\<close> (store,
    the two working directories, whether the kit server still runs, its \<open>--kits\<close>
    flag), the inductive step relation \<open>sys_step\<close> with one rule per routed request
    and one for a request refused after \<open>log.Fatal\<close> has ended the kit server,
    and \<open>sys_run\<close>, a sequence of steps, so that every interleaving of the two
    servers' requests is a run. Claims C16 and C17.
  \<^item> \<open>KitSpec\<close>: what \<open>zipDirFull\<close> promises: the abstract archive
    \<open>archive_spec\<close> of a directory (its non-empty regular files in lexical path
    order, \<open>files_below\<close>), the recursive traversal \<open>tree_list\<close> in
    \<open>ReadDir\<close>'s name order, and the two refinement steps: the traversal equals the
    abstract archive on every well-formed store (\<open>tree_list_spec\<close>, through the
    decomposition \<open>files_below_unfold\<close> of a sorted listing into per-entry blocks),
    and the walk computes the traversal when no link lies below the kit
    (\<open>walk_dir_tree\<close>). Claims C18 and C19 (names of archive entries are valid
    \<open>io/fs\<close> paths, by induction on the walk's depth budget).
  \<^item> \<open>IoFs\<close>: the \<open>io/fs\<close> library side: \<open>fs.ValidPath\<close> (\<open>valid_path\<close>,
    translated from its loop as \<open>valid_elems\<close> and shown equal to "every element is a
    plain name"), \<open>os.ReadFile\<close>, the interface \<open>FS\<close> of \<open>fs.go\<close> as the record
    \<open>fs_iface\<close> of its methods, and \<open>os.DirFS\<close> as the implementation
    \<open>dir_fs\<close>.
  \<^item> \<open>ChrootFS\<close>: the chroot \<open>FileSystem\<close>'s read face \<open>Root\<close>
    (\<open>root_fs\<close>, an \<open>fs_iface\<close>) against its write face \<open>rootName\<close>.
    Claims C20 and C21.
  \<^item> \<open>Startup\<close>: the flag sets registered in the two \<open>init\<close> functions, pflag's
    parser for string flags (\<open>parse_flags\<close>, \<open>parse_long\<close>,
    \<open>parse_short\<close>), the two \<open>main\<close> functions (\<open>upload_addr\<close>, which never
    parses, and \<open>kit_config\<close>), binding a TCP port (\<open>net_listen\<close>), both
    servers started in either order (\<open>start_servers\<close>), and the initial state
    \<open>sys_init\<close> of the system of \<open>Server\<close>. Claims C22 and C23.
  \<^item> \<open>Concurrency\<close>: \<open>createFileRecursive\<close> one system call at a time, as
    \<open>net/http\<close>'s goroutines run it: a thread (\<open>cfr_thread\<close>) is its program
    counter \<open>cfr_pc\<close> with the locals \<open>olddir\<close> and \<open>dirs\<close>; \<open>cfr_step\<close> makes its
    next call (\<open>Getwd\<close>, one \<open>Mkdir\<close>, one \<open>Chdir\<close>, \<open>Create\<close>, the deferred
    \<open>Chdir(olddir)\<close>) on the shared store; \<open>cfr_run\<close> runs one thread alone and
    \<open>run_sched\<close> any number of threads under a schedule, the list of the threads
    the Go scheduler lets make a call; one thread alone computes exactly
    \<open>create_file_recursive\<close> (\<open>cfr_run_eq\<close>). Claim C24.

  \<^bold>\<open>What is shown.\<close>
  \<^item> Upload server: \<open>chrootHandler\<close> keeps every change inside \<open>chroot/\<close> when no
    field name climbs out with a leading \<open>..\<close> and no link lies below \<open>chroot/\<close>
    (C1), while every name that climbs out by one \<open>..\<close> is stored in the working
    directory itself, outside \<open>chroot/\<close> (C2); a stored file is the ordered
    concatenation of its parts (C3); the working directory is restored on every path
    (C4); the directory-only branch of \<open>createFileRecursive\<close> is unreachable from the
    handler (C5). \<open>uploadHandler\<close> is contained for every name and adds only
    entries directly inside \<open>uploads/\<close> (C6). A file stored by
    \<open>createFileRecursive\<close> is found again by \<open>os.Open\<close> of the same path (C14).
  \<^item> Kit server: \<open>followIfSymlink\<close> is the identity, because its test compares a
    one-bit mask with 1 (C7); the archive walk returns on every well-formed store,
    changes nothing and archives only non-empty content (C8); a missing kits directory
    ends the process through \<open>log.Fatal\<close> (C9). Lemmas of \<open>Kit\<close> also evaluate the
    specification's end-to-end example and a link cycle (which panics with
    \<open>ELOOP\<close>), and show that the unflushed \<open>bufio.Writer\<close> delivers a strict prefix
    of the bytes written to it.
  \<^item> Chroot package: \<open>New\<close> creates or accepts the root, a regular file included
    (C10); \<open>CreateFile\<close> ignores its data (C11); \<open>CreateDirectory\<close> creates all
    levels of a path and touches nothing else (C12); after \<open>New(r)\<close>,
    \<open>CreateFile("../n")\<close> creates \<open>n\<close> beside the root on every store (C13).
  \<^item> Across components (this theory): the \<open>Mkdir\<close>/\<open>Chdir\<close> loop of
    \<open>createFileRecursive\<close> and \<open>os.MkdirAll\<close> of \<open>CreateDirectory\<close> build the
    same directories (C15).
  \<^item> The two servers together (\<open>Server\<close>): every interleaving of requests keeps
    the store well formed from both working directories and leaves those directories
    in place (C16, by rule induction over runs); with no escaping chroot name and no
    link below \<open>chroot/\<close> or \<open>uploads/\<close>, nothing outside those two
    directories changes, so the kits the kit server serves are the ones it saw (C17).
    Lemmas of \<open>Server\<close> also show that the kit server's requests leave the store as
    it was, that every finite sequence of requests is answered in order, and that the
    kit server serves nothing after \<open>log.Fatal\<close>.
  \<^item> Refinement (\<open>KitSpec\<close>): on a kit without symbolic links, \<open>zipDirFull\<close>
    returns exactly the abstract archive, every non-empty file once in lexical order
    of its path with its content (C18). On every store, links included, each name in
    an archive is a valid \<open>io/fs\<close> path, so extraction cannot climb out (C19).
  \<^item> Chroot package through its interface (\<open>ChrootFS\<close>): \<open>Root.ReadFile\<close> of
    a file \<open>CreateFile\<close> made gives the empty content, whatever data was passed
    (C20); reads through \<open>Root\<close> stay below the directory \<open>New\<close> created, because
    \<open>os.DirFS\<close> refuses invalid names, where \<open>CreateFile\<close> escapes (C21).
  \<^item> Start-up (\<open>Startup\<close>): the upload server ignores \<open>--port\<close> and both
    default to 8080, so whichever server starts second exits through
    \<open>log.Fatal\<close> (C22); the kit server's flags take exactly the values given
    (C23).
  \<^item> Concurrent requests (\<open>Concurrency\<close>): for every store and every pair of
    requests, when the second calls \<open>os.Getwd\<close> while the first is inside its
    first directory, the process is left in that directory whatever the calls find,
    while the same two requests one after the other restore the working directory
    (C24).

  \<^bold>\<open>Bounds and fuel.\<close> Path resolution spends one unit of a budget of 40 per
  symbolic link followed, Linux's \<open>MAXSYMLINKS\<close>; it terminates by the
  lexicographic order of budget and remaining path, with no fuel of the model's own.
  \<open>fs.ValidPath\<close>'s loop recurses on a shorter name, and pflag's \<open>parseArgs\<close>
  on fewer arguments left (each flag consumes its word and at most its value).
  \<open>os.MkdirAll\<close> recurses on a strictly shorter prefix of its argument, and
  \<open>bufio.Writer.Write\<close> on a measure of the bytes left and the buffer's state.
  \<open>followIfSymlink\<close> is a partial function whose non-termination would be
  \<open>None\<close>; C7 shows it always returns. \<open>fs.WalkDir\<close> recurses on the depth of the
  tree; the model gives it a depth budget \<open>walk_fuel\<close> of one more than the longest
  path in the store, and C8 shows the budget is never exhausted, since the walk only
  descends into real directories. The abstract traversal \<open>tree_list\<close> of
  \<open>KitSpec\<close> terminates by the same bound: the measure is \<open>walk_fuel\<close> minus
  the length of the path reached, and every entry it descends into is a stored path.
  A thread of \<open>Concurrency\<close> runs to its end by \<open>cfr_rank\<close>, the number of calls it
  has left, which each step lowers; a schedule is a finite list.

  \<^bold>\<open>Not modelled.\<close> Form parsing (the handlers take the parsed form,
  \<open>serveFiles\<close> the URL path), pflag flags other than string flags (the sources
  declare none), UTF-8 validity in \<open>fs.ValidPath\<close>, service-name ports and IPv6
  binding rules of \<open>net.Listen\<close>, the upload server exiting (the system of
  \<open>Server\<close> assumes it serves; \<open>sys_init\<close> starts it first), logging, the
  static file server of \<open>/bin/\<close>, permissions (so the
  \<open>ErrPermission\<close> handler of \<open>serveFiles\<close> is not reached), interleaving
  inside requests other than \<open>createFileRecursive\<close> (the other handlers run as
  one atomic step on the store; the system calls themselves are atomic), the byte format of zip
  archives (an archive is the list of its entries; the \<open>bufio.Writer\<close> is modelled
  on an abstract sequence of writes), and the chroot package's tests.
\<close>

text \<open>
  C15. Equivalence of two ways the program creates a directory path: the loop of
  \<open>createFileRecursive\<close> (\<open>createFolderIfNotExists\<close> and \<open>os.Chdir\<close> into each
  level) and \<open>os.MkdirAll\<close>, which \<open>CreateDirectory\<close> of the chroot package calls,
  leave the same file system on a path of plain names whose levels are absent or
  directories; they differ only in the working directory, which the loop leaves at the
  last level.
\<close>

theorem chdir_loop_eq_mkdir_all:
  assumes wf: "wf_fs st" and ne: "ds \<noteq> []" and pl: "list_all plain_name ds"
    and op: "\<forall>k. 0 < k \<longrightarrow> k \<le> length ds \<longrightarrow>
      node_at st (cwd st @ take k ds) = None \<or> node_at st (cwd st @ take k ds) = Some Dir"
  shows "\<exists>st1 st2. mkdir_chdir_loop st ds = (st1, None) \<and> mkdir_all st (join_with slash ds) = Inr st2 \<and>
           node_at st1 = node_at st2 \<and> cwd st1 = cwd st @ ds \<and> cwd st2 = cwd st"
proof -
  obtain st1 where l: "mkdir_chdir_loop st ds = (st1, None)" and c1: "cwd st1 = cwd st @ ds"
    and d1: "\<forall>k. 0 < k \<longrightarrow> k \<le> length ds \<longrightarrow> node_at st1 (cwd st @ take k ds) = Some Dir"
    and f1: "\<forall>q. (\<forall>k. 0 < k \<longrightarrow> k \<le> length ds \<longrightarrow> q \<noteq> cwd st @ take k ds) \<longrightarrow> node_at st1 q = node_at st q"
    using mkdir_chdir_loop_plain [OF wf pl op] by auto
  obtain st2 where m: "mkdir_all st (join_with slash ds) = Inr st2" and w2: "wf_fs st2" and c2: "cwd st2 = cwd st"
    and d2: "\<forall>k. 0 < k \<longrightarrow> k \<le> length ds \<longrightarrow> node_at st2 (cwd st @ take k ds) = Some Dir"
    and f2: "\<forall>q. (\<forall>k. q \<noteq> cwd st @ take k ds) \<longrightarrow> node_at st2 q = node_at st q"
    using mkdir_all_plain [OF wf ne pl op] by auto
  have "node_at st1 q = node_at st2 q" for q
  proof (cases "\<exists>k. 0 < k \<and> k \<le> length ds \<and> q = cwd st @ take k ds")
    case True
    with d1 d2 show ?thesis by auto
  next
    case False
    then have n1: "node_at st1 q = node_at st q" using f1 by auto
    show ?thesis
    proof (cases "q = cwd st")
      case True
      have "node_at st2 (cwd st2) = Some Dir" "node_at st (cwd st) = Some Dir"
        using w2 wf by (simp_all add: wf_fs_def)
      with True n1 c2 show ?thesis by simp
    next
      case qn: False
      have "\<forall>k. q \<noteq> cwd st @ take k ds"
      proof
        fix k
        show "q \<noteq> cwd st @ take k ds"
        proof (cases "k = 0")
          case True with qn show ?thesis by simp
        next
          case False
          with \<open>\<not> (\<exists>k. 0 < k \<and> k \<le> length ds \<and> q = cwd st @ take k ds)\<close>
          show ?thesis using ne by (cases "k \<le> length ds") (auto dest: spec [of _ "length ds"])
        qed
      qed
      with f2 n1 show ?thesis by simp
    qed
  qed
  with l m c1 c2 show ?thesis by blast
qed

theorem chdir_loop_eq_mkdir_all_witness:
  "wf_fs \<lparr>fs_entries = [([''srv''], Dir)], cwd = [''srv'']\<rparr> \<and> [''a'', ''b''] \<noteq> [] \<and>
   list_all plain_name [''a'', ''b''] \<and>
   (\<exists>st1 st2. mkdir_chdir_loop \<lparr>fs_entries = [([''srv''], Dir)], cwd = [''srv'']\<rparr> [''a'', ''b''] = (st1, None) \<and>
      mkdir_all \<lparr>fs_entries = [([''srv''], Dir)], cwd = [''srv'']\<rparr> (join_with slash [''a'', ''b'']) = Inr st2 \<and>
      node_at st1 = node_at st2 \<and> cwd st1 = [''srv'', ''a'', ''b''] \<and> cwd st2 = [''srv''])"
proof -
  let ?st = "\<lparr>fs_entries = [([''srv''], Dir)], cwd = [''srv'']\<rparr>"
  have wf: "wf_fs ?st" by (simp add: fs_simps go_simps)
  have ne: "[''a'', ''b''] \<noteq> []" and pl: "list_all plain_name [''a'', ''b'']" by (simp_all add: plain_name_def)
  have op: "\<forall>k. 0 < k \<longrightarrow> k \<le> length [''a'', ''b''] \<longrightarrow>
      node_at ?st (cwd ?st @ take k [''a'', ''b'']) = None \<or> node_at ?st (cwd ?st @ take k [''a'', ''b'']) = Some Dir"
  proof (intro allI impI)
    fix k :: nat assume "0 < k" "k \<le> length [''a'', ''b'']"
    then have "k = 1 \<or> k = 2" by auto
    then show "node_at ?st (cwd ?st @ take k [''a'', ''b'']) = None \<or>
        node_at ?st (cwd ?st @ take k [''a'', ''b'']) = Some Dir" by (auto simp: fs_simps)
  qed
  from chdir_loop_eq_mkdir_all [OF wf ne pl op] wf ne pl show ?thesis by simp
qed

end
